theory Spec2Isabelle
  imports Complex_Main "HOL-Library.Word"
begin

unbundle bit_operations_syntax

section \<open>Reflex: bytes, errors and big-endian fields\<close>

text \<open>
  Go's \<open>[]byte\<close> is a list of 8-bit words. A Go \<open>error\<close> carries a message;
  \<open>errors.New(msg).Base(err)\<close> wraps an inner error; a run-time panic (a failed type
  assertion, a slice out of range) is a value of its own, so every way a function can
  leave is a branch of the model.
\<close>

type_synonym byte = "8 word"

datatype error = Error string | Wrapped string error | Panic string

text \<open>\<open>data[lo:hi]\<close> for \<open>lo \<le> hi \<le> len(data)\<close>; the callers below guard the bounds
  before slicing, as the source does.\<close>

definition slice :: "nat \<Rightarrow> nat \<Rightarrow> 'a list \<Rightarrow> 'a list" where
  "slice lo hi xs = take (hi - lo) (drop lo xs)"

text \<open>\<open>binary.BigEndian.Uint16/Uint32/Uint64\<close> and \<open>PutUint16\<close>,
  \<open>binary.LittleEndian.PutUint64\<close> (the bytes it stores).\<close>

definition be_uint16 :: "byte list \<Rightarrow> 16 word" where
  "be_uint16 b = ucast (b ! 1) OR push_bit 8 (ucast (b ! 0))"

definition be_uint32 :: "byte list \<Rightarrow> 32 word" where
  "be_uint32 b = ucast (b ! 3) OR push_bit 8 (ucast (b ! 2)) OR push_bit 16 (ucast (b ! 1))
     OR push_bit 24 (ucast (b ! 0))"

definition be_uint64 :: "byte list \<Rightarrow> 64 word" where
  "be_uint64 b = ucast (b ! 7) OR push_bit 8 (ucast (b ! 6)) OR push_bit 16 (ucast (b ! 5))
     OR push_bit 24 (ucast (b ! 4)) OR push_bit 32 (ucast (b ! 3)) OR push_bit 40 (ucast (b ! 2))
     OR push_bit 48 (ucast (b ! 1)) OR push_bit 56 (ucast (b ! 0))"

definition be_put_uint16 :: "16 word \<Rightarrow> byte list" where
  "be_put_uint16 v = [ucast (drop_bit 8 v), ucast v]"

definition le_put_uint64 :: "64 word \<Rightarrow> byte list" where
  "le_put_uint64 v = [ucast v, ucast (drop_bit 8 v), ucast (drop_bit 16 v), ucast (drop_bit 24 v),
     ucast (drop_bit 32 v), ucast (drop_bit 40 v), ucast (drop_bit 48 v), ucast (drop_bit 56 v)]"

section \<open>Handshake codec (encoding/handshake.go)\<close>

definition ReflexMagic :: "32 word" where
  "ReflexMagic = 0x5246584C"

text \<open>\<open>Timestamp\<close> is Go's \<open>int64\<close>: a 64-bit word read in two's complement.\<close>

record ClientHandshake =
  PublicKey :: "byte list"
  UserID :: "byte list"
  Timestamp :: "64 word"
  Nonce :: "byte list"

record ServerHandshake =
  SPublicKey :: "byte list"
  STimestamp :: "64 word"

definition DecodeClientHandshake :: "byte list \<Rightarrow> error + ClientHandshake" where
  "DecodeClientHandshake data =
     (if length data < 76 then Inl (Error ''handshake packet too short'')
      else let magic = be_uint32 (slice 0 4 data) in
        if magic \<noteq> ReflexMagic then Inl (Error ''invalid magic number'')
        else Inr \<lparr>PublicKey = slice 4 36 data,
                  UserID = slice 36 52 data,
                  Timestamp = be_uint64 (slice 52 60 data),
                  Nonce = slice 60 76 data\<rparr>)"

definition DecodeServerHandshake :: "byte list \<Rightarrow> error + ServerHandshake" where
  "DecodeServerHandshake data =
     (if length data < 40 then Inl (Error ''handshake response too short'')
      else Inr \<lparr>SPublicKey = slice 0 32 data,
                STimestamp = be_uint64 (slice 32 40 data)\<rparr>)"

text \<open>
  \<open>ValidateTimestamp\<close> reads the clock; \<open>now\<close> is \<open>time.Now().Unix()\<close>, passed in.
  The subtraction, the negation and both comparisons are \<open>int64\<close> operations: they
  wrap around and compare signed.
\<close>

definition ValidateTimestamp :: "64 word \<Rightarrow> 64 word \<Rightarrow> bool" where
  "ValidateTimestamp now timestamp =
     (let diff = now - timestamp;
          diff = (if diff <s 0 then - diff else diff)
      in diff \<le>s 120)"

section \<open>User validator (validator.go)\<close>

text \<open>
  A \<open>protocol.MemoryUser\<close> carries an account behind an interface. \<open>Add\<close> asserts
  that it is a \<open>*MemoryAccount\<close> (the type assertion panics on any other account) and
  files the user under the 16 bytes of the account's ID, copied into a zeroed
  \<open>[16]byte\<close>. An account always has its ID here. The lock of the validator is not
  modelled: each operation holds it from start to end.
\<close>

datatype account = MemoryAccount (ID: "byte list") (Policy: string) | OtherAccount

record MemoryUser =
  Account :: account
  Email :: string
  Level :: "32 word"

record Validator =
  users :: "byte list \<rightharpoonup> MemoryUser"

definition NewValidator :: Validator where
  "NewValidator = \<lparr>users = Map.empty\<rparr>"

definition copy16 :: "byte list \<Rightarrow> byte list" where
  "copy16 idBytes = take 16 idBytes @ replicate (16 - length idBytes) 0"

definition Add :: "Validator \<Rightarrow> MemoryUser \<Rightarrow> error option \<times> Validator" where
  "Add v u =
     (case Account u of
        MemoryAccount idBytes pol \<Rightarrow> (None, v\<lparr>users := (users v)(copy16 idBytes \<mapsto> u)\<rparr>)
      | OtherAccount \<Rightarrow> (Some (Panic ''interface conversion''), v))"

definition Get :: "Validator \<Rightarrow> byte list \<Rightarrow> error + MemoryUser" where
  "Get v userID =
     (case users v userID of
        Some user \<Rightarrow> Inr user
      | None \<Rightarrow> Inl (Error ''user not found''))"

text \<open>
  \<open>Remove\<close> ranges over the map and deletes the first entry it meets whose email
  matches, then returns. Go leaves the order of a \<open>range\<close> over a map to the run time;
  the order in which the keys are visited is the first argument (a key that is not in
  the map is passed over).
\<close>

fun Remove :: "byte list list \<Rightarrow> Validator \<Rightarrow> string \<Rightarrow> error option \<times> Validator" where
  "Remove [] v email = (Some (Error ''user not found''), v)"
| "Remove (k # ks) v email =
     (case users v k of
        None \<Rightarrow> Remove ks v email
      | Some user \<Rightarrow>
          if Email user = email then (None, v\<lparr>users := (users v)(k := None)\<rparr>)
          else Remove ks v email)"

text \<open>Example users: two accounts with different IDs and one email, and a second
  record for the first ID.\<close>

definition userA :: MemoryUser where
  "userA = \<lparr>Account = MemoryAccount (replicate 16 0xAA) [],
             Email = ''shared@example.com'', Level = 0\<rparr>"

definition userB :: MemoryUser where
  "userB = \<lparr>Account = MemoryAccount (replicate 16 0xBB) ''zoom'',
             Email = ''shared@example.com'', Level = 0\<rparr>"

definition userA2 :: MemoryUser where
  "userA2 = \<lparr>Account = MemoryAccount (replicate 16 0xAA) ''youtube'',
              Email = ''second@example.com'', Level = 1\<rparr>"

definition validatorA :: Validator where
  "validatorA = snd (Add NewValidator userA)"

definition validatorAB :: Validator where
  "validatorAB = snd (Add validatorA userB)"

section \<open>Fallback table (inbound/config.go, inbound/conn.go)\<close>

record Fallback =
  Name :: string
  Alpn :: string
  Path :: string
  FallbackType :: string
  Dest :: string
  Xver :: "64 word"

text \<open>
  The handler's table is \<open>map[string]map[string]map[string]*Fallback\<close>, keyed by name,
  then ALPN, then path; it is \<open>nil\<close> when the configuration has no fallbacks. \<open>New\<close>
  stores the configuration's own (non-nil) entries, so a key that is present maps to an
  entry.
\<close>

type_synonym fallback_table = "string \<rightharpoonup> (string \<rightharpoonup> (string \<rightharpoonup> Fallback))"

record Handler =
  validator :: Validator
  fallbacks :: "fallback_table option"

definition findFallback :: "Handler \<Rightarrow> string \<Rightarrow> string \<Rightarrow> string \<Rightarrow> Fallback option" where
  "findFallback h name alpn path =
     (case fallbacks h of
        None \<Rightarrow> None
      | Some fbs \<Rightarrow>
          (case (case fbs name of
                   None \<Rightarrow> None
                 | Some apfb \<Rightarrow>
                     (case (case apfb alpn of
                              None \<Rightarrow> None
                            | Some pfb \<Rightarrow>
                                (case pfb path of
                                   Some fb \<Rightarrow> Some fb
                                 | None \<Rightarrow> pfb ''''))
                      of Some fb \<Rightarrow> Some fb
                       | None \<Rightarrow>
                           (case apfb '''' of
                              None \<Rightarrow> None
                            | Some pfb \<Rightarrow>
                                (case pfb path of
                                   Some fb \<Rightarrow> Some fb
                                 | None \<Rightarrow> pfb ''''))))
           of Some fb \<Rightarrow> Some fb
            | None \<Rightarrow>
                (case fbs '''' of
                   None \<Rightarrow> None
                 | Some apfb \<Rightarrow>
                     (case (case apfb alpn of
                              None \<Rightarrow> None
                            | Some pfb \<Rightarrow>
                                (case pfb path of
                                   Some fb \<Rightarrow> Some fb
                                 | None \<Rightarrow> pfb ''''))
                      of Some fb \<Rightarrow> Some fb
                       | None \<Rightarrow>
                           (case apfb '''' of
                              None \<Rightarrow> None
                            | Some pfb \<Rightarrow>
                                (case pfb path of
                                   Some fb \<Rightarrow> Some fb
                                 | None \<Rightarrow> pfb ''''))))))"

text \<open>
  \<open>handleFallback\<close>, from the lookup on: the name, ALPN and path it extracts from the
  peeked bytes are the arguments (the extraction is not modelled). It returns the entry
  the connection is forwarded to, or the error it returns after closing the connection.
\<close>

definition handleFallback :: "Handler \<Rightarrow> string \<Rightarrow> string \<Rightarrow> string \<Rightarrow> error + Fallback" where
  "handleFallback h name alpn path =
     (let fb = findFallback h name alpn path;
          fb = (if fb = None then findFallback h '''' '''' '''' else fb)
      in case fb of
           None \<Rightarrow> Inl (Error ''no fallback configured'')
         | Some f \<Rightarrow> Inr f)"

text \<open>
  The lookup order in the specification's words: the entry stored under a key triple,
  the eight triples in the order "exact name then empty; within each, exact ALPN then
  empty; within each, exact path then empty", and the first of a list of triples that
  has an entry.
\<close>

definition table_entry :: "fallback_table \<Rightarrow> string \<times> string \<times> string \<Rightarrow> Fallback option" where
  "table_entry fbs k =
     (case k of (name, alpn, path) \<Rightarrow>
        (case fbs name of
           None \<Rightarrow> None
         | Some apfb \<Rightarrow> (case apfb alpn of None \<Rightarrow> None | Some pfb \<Rightarrow> pfb path)))"

definition lookup_order :: "string \<Rightarrow> string \<Rightarrow> string \<Rightarrow> (string \<times> string \<times> string) list" where
  "lookup_order name alpn path =
     [(name, alpn, path), (name, alpn, ''''), (name, '''', path), (name, '''', ''''),
      ('''', alpn, path), ('''', alpn, ''''), ('''', '''', path), ('''', '''', '''')]"

fun first_entry :: "fallback_table \<Rightarrow> (string \<times> string \<times> string) list \<Rightarrow> Fallback option" where
  "first_entry fbs [] = None"
| "first_entry fbs (k # ks) =
     (case table_entry fbs k of Some fb \<Rightarrow> Some fb | None \<Rightarrow> first_entry fbs ks)"

text \<open>The table \<open>New\<close> builds from a list of configured entries, and two examples.\<close>

definition add_fallback :: "fallback_table \<Rightarrow> Fallback \<Rightarrow> fallback_table" where
  "add_fallback fbs fb =
     (let apfb = (case fbs (Name fb) of None \<Rightarrow> Map.empty | Some m \<Rightarrow> m);
          pfb = (case apfb (Alpn fb) of None \<Rightarrow> Map.empty | Some m \<Rightarrow> m)
      in fbs(Name fb \<mapsto> apfb(Alpn fb \<mapsto> pfb(Path fb \<mapsto> fb))))"

definition fbDefault :: Fallback where
  "fbDefault = \<lparr>Name = '''', Alpn = '''', Path = '''', FallbackType = ''tcp'', Dest = ''80'', Xver = 0\<rparr>"

definition fbApi :: Fallback where
  "fbApi = \<lparr>Name = ''example.com'', Alpn = '''', Path = ''/api'', FallbackType = ''tcp'',
             Dest = ''127.0.0.1:8080'', Xver = 0\<rparr>"

definition handlerFB :: Handler where
  "handlerFB = \<lparr>validator = validatorA,
                 fallbacks = Some (add_fallback (add_fallback Map.empty fbDefault) fbApi)\<rparr>"

section \<open>Inbound session: handshake and request header (inbound/inbound.go)\<close>

text \<open>
  \<open>handleReflexHandshake\<close> up to the authentication decision. \<open>input\<close> is what the
  connection delivers; \<open>io.ReadFull\<close> of 76 bytes fails on a shorter stream. The
  outcomes: the handler returns an error, it returns what \<open>handleFallback\<close> returns, or
  it goes on to the key agreement with the user it found. Nothing is written to the
  connection before the key agreement (the first \<open>conn.Write\<close> sends the server
  handshake).
\<close>

datatype outcome = Return error | HandleFallback | KeyAgreement MemoryUser ClientHandshake

definition handleReflexHandshake :: "Handler \<Rightarrow> 64 word \<Rightarrow> byte list \<Rightarrow> outcome" where
  "handleReflexHandshake h now input =
     (if length input < 76 then
        Return (Wrapped ''failed to read handshake''
                  (Error (if input = [] then ''EOF'' else ''unexpected EOF'')))
      else
        (case DecodeClientHandshake (take 76 input) of
           Inl err \<Rightarrow> Return (Wrapped ''invalid handshake'' err)
         | Inr clientHS \<Rightarrow>
             if \<not> ValidateTimestamp now (Timestamp clientHS)
             then Return (Error ''invalid timestamp'')
             else
               (case Get (validator h) (UserID clientHS) of
                  Inl err \<Rightarrow> HandleFallback
                | Inr account \<Rightarrow> KeyAgreement account clientHS)))"

text \<open>
  \<open>Process\<close>: peek up to 76 bytes; a stream that opens with the Reflex magic goes to
  \<open>handleReflexHandshake\<close>, anything else to \<open>handleFallback\<close>.
\<close>

definition Process :: "Handler \<Rightarrow> 64 word \<Rightarrow> byte list \<Rightarrow> outcome" where
  "Process h now input =
     (let peeked = take 76 input in
        if 4 \<le> length peeked \<and> be_uint32 (slice 0 4 peeked) = ReflexMagic
        then handleReflexHandshake h now input
        else HandleFallback)"

datatype address = IPAddress "byte list" | DomainAddress "byte list"

record RequestHeader =
  Version :: byte
  Command :: byte
  Port :: "16 word"
  Address :: "address option"

definition parseRequestHeader :: "byte list \<Rightarrow> error + RequestHeader" where
  "parseRequestHeader payload =
     (if length payload < 4 then Inl (Error ''payload too short'')
      else
        let request = \<lparr>Version = 1, Command = payload ! 0,
                        Port = be_uint16 (slice 1 3 payload), Address = None\<rparr>
        in
          if 7 \<le> length payload then
            (let addrType = payload ! 3 in
               if addrType = 1 then
                 (if length payload < 8 then Inl (Error ''invalid IPv4 address'')
                  else Inr (request\<lparr>Address := Some (IPAddress (slice 4 8 payload))\<rparr>))
               else if addrType = 3 then
                 (if length payload < 5 then Inl (Error ''invalid domain address'')
                  else
                    let domainLen = unat (payload ! 4) in
                      if length payload < 5 + domainLen
                      then Inl (Error ''incomplete domain address'')
                      else Inr (request\<lparr>Address :=
                                  Some (DomainAddress (slice 5 (5 + domainLen) payload))\<rparr>))
               else if addrType = 4 then
                 (if length payload < 20 then Inl (Error ''invalid IPv6 address'')
                  else Inr (request\<lparr>Address := Some (IPAddress (slice 4 20 payload))\<rparr>))
               else Inl (Error ''unknown address type''))
          else Inr request)"

text \<open>
  The first step of \<open>requestDone\<close>: what it writes to the dispatcher link from the first
  frame's payload, \<open>None\<close> when it writes nothing.
\<close>

definition requestDone_first :: "byte list \<Rightarrow> byte list option" where
  "requestDone_first payload =
     (if 12 < length payload then
        (let headerSize = 12 in
           if headerSize < length payload then Some (drop headerSize payload) else None)
      else None)"

text \<open>
  The size of the request header as the specification gives it:
  command(1), port(2), address type(1), then 4 bytes (IPv4), 16 bytes (IPv6) or a length
  byte and that many bytes (domain).
\<close>

definition spec_header_size :: "byte list \<Rightarrow> nat" where
  "spec_header_size payload =
     (if payload ! 3 = 1 then 8
      else if payload ! 3 = 4 then 20
      else 5 + unat (payload ! 4))"

text \<open>Example first frames: an IPv4 request for 10.0.0.1:443 followed by the four bytes
  "GET ", and an IPv6 request for [2001:db8::1]:443 with nothing after it.\<close>

definition payloadIPv4 :: "byte list" where
  "payloadIPv4 = [1, 0x01, 0xBB, 1, 10, 0, 0, 1, 0x47, 0x45, 0x54, 0x20]"

definition payloadIPv6 :: "byte list" where
  "payloadIPv6 = [1, 0x01, 0xBB, 4, 0x20, 0x01, 0x0D, 0xB8, 0, 0, 0, 0, 0, 0, 0, 0, 0, 0, 0, 1]"

text \<open>Example handshakes: the magic, a zero key, a user ID, a timestamp and a zero nonce.\<close>

definition handshakeBytes :: "byte list \<Rightarrow> byte list \<Rightarrow> byte list" where
  "handshakeBytes uid ts = [0x52, 0x46, 0x58, 0x4C] @ replicate 32 0 @ uid @ ts @ replicate 16 0"

section \<open>Frame codec (encoding/frame.go)\<close>

definition FrameTypeData :: byte where "FrameTypeData = 0x01"
definition FrameTypePadding :: byte where "FrameTypePadding = 0x02"
definition FrameTypeTiming :: byte where "FrameTypeTiming = 0x03"
definition FrameTypeClose :: byte where "FrameTypeClose = 0x04"
definition MaxFramePayloadSize :: nat where "MaxFramePayloadSize = 16384"

text \<open>A frame's payload is its bytes: Go's \<open>nil\<close> and empty slices are both \<open>[]\<close>.\<close>

record Frame =
  Type :: byte
  Payload :: "byte list"

text \<open>
  The cipher is \<open>golang.org/x/crypto/chacha20poly1305\<close>, a library outside the
  repository. The codec uses it through Go's \<open>cipher.AEAD\<close> interface, with an empty
  destination prefix and no additional data: \<open>Seal nonce plaintext\<close> is the ciphertext
  with its tag, \<open>Open nonce ciphertext\<close> the plaintext, or \<open>None\<close> when authentication
  fails. The constructor \<open>chacha20poly1305.New\<close> is a parameter of \<open>NewFrameEncoder\<close>
  and \<open>NewFrameDecoder\<close>.
\<close>

record AEAD =
  Seal :: "byte list \<Rightarrow> byte list \<Rightarrow> byte list"
  Open :: "byte list \<Rightarrow> byte list \<Rightarrow> byte list option"
  NonceSize :: nat

text \<open>\<open>FrameEncoder\<close> and \<open>FrameDecoder\<close> are two structs with the same three fields.\<close>

record FrameEncoder =
  aead :: AEAD
  nonce :: "byte list"
  counter :: "64 word"

type_synonym FrameDecoder = FrameEncoder

definition NewFrameEncoder :: "(byte list \<Rightarrow> error + AEAD) \<Rightarrow> byte list \<Rightarrow> error + FrameEncoder" where
  "NewFrameEncoder new sessionKey =
     (case new sessionKey of
        Inl err \<Rightarrow> Inl err
      | Inr a \<Rightarrow> Inr \<lparr>aead = a, nonce = replicate (NonceSize a) 0, counter = 0\<rparr>)"

definition NewFrameDecoder :: "(byte list \<Rightarrow> error + AEAD) \<Rightarrow> byte list \<Rightarrow> error + FrameDecoder" where
  "NewFrameDecoder new sessionKey =
     (case new sessionKey of
        Inl err \<Rightarrow> Inl err
      | Inr a \<Rightarrow> Inr \<lparr>aead = a, nonce = replicate (NonceSize a) 0, counter = 0\<rparr>)"

text \<open>
  \<open>Encode\<close>: the counter is a \<open>uint64\<close> and wraps; \<open>PutUint64\<close> overwrites the first
  8 bytes of the nonce (and panics on a shorter one); the length prefix is
  \<open>uint16(len(ciphertext))\<close>, the length modulo 2^16. The pooled buffers are
  overwritten in full before they are read, so they are plain values here. The result is
  the returned pair and the encoder after the call.
\<close>

definition Encode :: "FrameEncoder \<Rightarrow> Frame \<Rightarrow> (error + byte list) \<times> FrameEncoder" where
  "Encode e frame =
     (let c = counter e + 1 in
        if length (nonce e) < 8 then (Inl (Panic ''index out of range''), e\<lparr>counter := c\<rparr>)
        else
          let n = le_put_uint64 c @ drop 8 (nonce e);
              e' = e\<lparr>nonce := n, counter := c\<rparr>;
              plaintext = Type frame # Payload frame;
              ciphertext = Seal (aead e) n plaintext;
              frameData = be_put_uint16 (of_nat (length ciphertext)) @ ciphertext
          in (Inr frameData, e'))"

text \<open>
  \<open>EncodeToWriter\<close> (and \<open>WriteFrame\<close>, which calls it): the same steps, then one
  \<open>Write\<close>. An \<open>io.Writer\<close> is a state \<open>w\<close> with a write function that returns the new
  state or an error.
\<close>

definition EncodeToWriter ::
  "('w \<Rightarrow> byte list \<Rightarrow> error + 'w) \<Rightarrow> FrameEncoder \<Rightarrow> 'w \<Rightarrow> Frame \<Rightarrow> error option \<times> FrameEncoder \<times> 'w" where
  "EncodeToWriter wr e w frame =
     (let c = counter e + 1 in
        if length (nonce e) < 8 then (Some (Panic ''index out of range''), e\<lparr>counter := c\<rparr>, w)
        else
          let n = le_put_uint64 c @ drop 8 (nonce e);
              e' = e\<lparr>nonce := n, counter := c\<rparr>;
              plaintext = Type frame # Payload frame;
              ciphertext = Seal (aead e) n plaintext;
              frameData = be_put_uint16 (of_nat (length ciphertext)) @ ciphertext
          in case wr w frameData of
               Inl err \<Rightarrow> (Some err, e', w)
             | Inr w' \<Rightarrow> (None, e', w'))"

definition WriteFrame ::
  "('w \<Rightarrow> byte list \<Rightarrow> error + 'w) \<Rightarrow> FrameEncoder \<Rightarrow> 'w \<Rightarrow> Frame \<Rightarrow> error option \<times> FrameEncoder \<times> 'w" where
  "WriteFrame wr e w frame = EncodeToWriter wr e w frame"

text \<open>
  \<open>Decode\<close>: \<open>length\<close> is a \<open>uint16\<close>, and so is \<open>2+length\<close>, in the comparison and
  in the slice bound: it wraps for 65534 and 65535, the comparison then passes and the
  slice \<open>data[2:0]\<close> or \<open>data[2:1]\<close> panics. The counter is incremented before the
  cipher is asked, and stays incremented when authentication fails.
\<close>

definition Decode :: "FrameDecoder \<Rightarrow> byte list \<Rightarrow> (error + Frame) \<times> FrameDecoder" where
  "Decode d data =
     (if length data < 2 then (Inl (Error ''frame too short''), d)
      else
        let len = be_uint16 (slice 0 2 data) in
          if length data < unat (2 + len) then (Inl (Error ''incomplete frame''), d)
          else if unat (2 + len) < 2 then (Inl (Panic ''slice bounds out of range''), d)
          else
            let ciphertext = slice 2 (unat (2 + len)) data;
                c = counter d + 1
            in
              if length (nonce d) < 8
              then (Inl (Panic ''index out of range''), d\<lparr>counter := c\<rparr>)
              else
                let n = le_put_uint64 c @ drop 8 (nonce d);
                    d' = d\<lparr>nonce := n, counter := c\<rparr>
                in case Open (aead d) n ciphertext of
                     None \<Rightarrow> (Inl (Error ''decryption failed''), d')
                   | Some plaintext \<Rightarrow>
                       if length plaintext < 1 then (Inl (Error ''invalid plaintext''), d')
                       else
                         let payloadSize = length plaintext - 1 in
                           (Inr \<lparr>Type = plaintext ! 0,
                                 Payload = (if 0 < payloadSize then drop 1 plaintext else [])\<rparr>,
                            d'))"

subsection \<open>A session's frames in order\<close>

text \<open>
  One direction of a session: the encoder encodes the frames one after the other, the
  decoder decodes the byte strings it receives one after the other. \<open>EncodeAll\<close> stops
  at the first error; \<open>DecodeAll\<close> records every result.
\<close>

fun EncodeAll :: "FrameEncoder \<Rightarrow> Frame list \<Rightarrow> byte list list \<times> FrameEncoder" where
  "EncodeAll e [] = ([], e)"
| "EncodeAll e (f # fs) =
     (case Encode e f of
        (Inl err, e') \<Rightarrow> ([], e')
      | (Inr out, e') \<Rightarrow> (out # fst (EncodeAll e' fs), snd (EncodeAll e' fs)))"

fun DecodeAll :: "FrameDecoder \<Rightarrow> byte list list \<Rightarrow> (error + Frame) list \<times> FrameDecoder" where
  "DecodeAll d [] = ([], d)"
| "DecodeAll d (x # xs) =
     (fst (Decode d x) # fst (DecodeAll (snd (Decode d x)) xs),
      snd (DecodeAll (snd (Decode d x)) xs))"

subsection \<open>What the codec relies on from the cipher\<close>

text \<open>
  The contract of the ChaCha20-Poly1305 AEAD (RFC 8439) as the library implements it:
  keys of 32 bytes and no others, nonces of 12 bytes, a 16-byte tag appended, and
  \<open>Open\<close> inverts \<open>Seal\<close> under the same nonce.
\<close>

definition aead_contract :: "AEAD \<Rightarrow> bool" where
  "aead_contract a \<longleftrightarrow>
     NonceSize a = 12 \<and>
     (\<forall>n p. length (Seal a n p) = length p + 16) \<and>
     (\<forall>n c p. Open a n c = Some p \<longrightarrow> length c = length p + 16) \<and>
     (\<forall>n p. length n = 12 \<longrightarrow> Open a n (Seal a n p) = Some p)"

definition cipher_contract :: "(byte list \<Rightarrow> error + AEAD) \<Rightarrow> bool" where
  "cipher_contract new \<longleftrightarrow>
     (\<forall>key. (length key = 32 \<longrightarrow> (\<exists>a. new key = Inr a \<and> aead_contract a)) \<and>
            (length key \<noteq> 32 \<longrightarrow> (\<exists>err. new key = Inl err)))"

text \<open>
  Authentication binds the nonce: a ciphertext sealed under one nonce does not open
  under another. This is the idealised reading of the cipher's security (a forgery is
  infeasible, not impossible), and the reading on which replay protection by counter
  rests.
\<close>

definition nonce_binding :: "AEAD \<Rightarrow> bool" where
  "nonce_binding a \<longleftrightarrow>
     (\<forall>n n' p. length n = 12 \<and> length n' = 12 \<and> n \<noteq> n' \<longrightarrow> Open a n' (Seal a n p) = None)"

text \<open>
  A stand-in cipher for the examples, which meets the contract and binds the nonce: the
  ciphertext is the plaintext followed by a 16-byte tag made of the nonce and the key.
\<close>

definition tag_of :: "byte list \<Rightarrow> byte list \<Rightarrow> byte list" where
  "tag_of key n = take 16 (n @ key @ replicate 16 0)"

definition tagAEAD :: "byte list \<Rightarrow> AEAD" where
  "tagAEAD key =
     \<lparr>Seal = (\<lambda>n p. p @ tag_of key n),
      Open = (\<lambda>n c. if 16 \<le> length c \<and> drop (length c - 16) c = tag_of key n
                     then Some (take (length c - 16) c) else None),
      NonceSize = 12\<rparr>"

definition tagNew :: "byte list \<Rightarrow> error + AEAD" where
  "tagNew key =
     (if length key = 32 then Inr (tagAEAD key)
      else Inl (Error ''chacha20poly1305: bad key length''))"

text \<open>
  The codec state after \<open>c\<close> frames, and the bytes \<open>Encode\<close> emits for a frame under
  counter value \<open>c\<close>.
\<close>

definition codec_at :: "AEAD \<Rightarrow> 64 word \<Rightarrow> FrameEncoder" where
  "codec_at a c = \<lparr>aead = a, nonce = le_put_uint64 c @ replicate 4 0, counter = c\<rparr>"

definition wire :: "AEAD \<Rightarrow> 64 word \<Rightarrow> Frame \<Rightarrow> byte list" where
  "wire a c f =
     be_put_uint16 (of_nat (length (Payload f) + 17)) @
     Seal a (le_put_uint64 c @ replicate 4 0) (Type f # Payload f)"

fun wires :: "AEAD \<Rightarrow> 64 word \<Rightarrow> Frame list \<Rightarrow> byte list list" where
  "wires a c [] = []"
| "wires a c (f # fs) = wire a (c + 1) f # wires a (c + 1) fs"

definition key0 :: "byte list" where
  "key0 = replicate 32 0"

definition helloFrame :: Frame where
  "helloFrame = \<lparr>Type = 0x01, Payload = [0x48, 0x65, 0x6C, 0x6C, 0x6F]\<rparr>"

text \<open>
  Example sessions: a fresh codec under the stand-in cipher, and a frame whose payload
  makes the ciphertext 65536 bytes long.
\<close>

definition session0 :: FrameEncoder where
  "session0 = \<lparr>aead = tagAEAD key0, nonce = replicate 12 0, counter = 0\<rparr>"

definition bigFrame :: Frame where
  "bigFrame = \<lparr>Type = 0x01, Payload = replicate 65519 0\<rparr>"


section \<open>Traffic morphing (encoding/morphing.go, encoding/frame.go)\<close>

text \<open>
  A profile lists packet sizes and delays with weights. \<open>Size\<close> is a Go \<open>int\<close>, a
  delay a \<open>time.Duration\<close> in nanoseconds. The weights and the random draw are
  \<open>float64\<close> in the source and rationals here: the draw picks the same entry except
  within rounding error of a boundary between two entries, and the properties proved
  below hold whichever entry is picked.
\<close>

record PacketSizePattern =
  Size :: int
  Weight :: rat

record DelayPattern =
  Delay :: int
  DelayWeight :: rat

record TrafficProfile =
  ProfileName :: string
  PacketSizes :: "PacketSizePattern list"
  Delays :: "DelayPattern list"

definition YouTubeProfile :: TrafficProfile where
  "YouTubeProfile =
     \<lparr>ProfileName = ''YouTube'',
      PacketSizes = [\<lparr>Size = 1400, Weight = 4 / 10\<rparr>, \<lparr>Size = 1200, Weight = 3 / 10\<rparr>,
                     \<lparr>Size = 1000, Weight = 2 / 10\<rparr>, \<lparr>Size = 800, Weight = 1 / 10\<rparr>],
      Delays = [\<lparr>Delay = 10000000, DelayWeight = 5 / 10\<rparr>,
                \<lparr>Delay = 20000000, DelayWeight = 3 / 10\<rparr>,
                \<lparr>Delay = 30000000, DelayWeight = 2 / 10\<rparr>]\<rparr>"

definition ZoomProfile :: TrafficProfile where
  "ZoomProfile =
     \<lparr>ProfileName = ''Zoom'',
      PacketSizes = [\<lparr>Size = 500, Weight = 3 / 10\<rparr>, \<lparr>Size = 600, Weight = 4 / 10\<rparr>,
                     \<lparr>Size = 700, Weight = 3 / 10\<rparr>],
      Delays = [\<lparr>Delay = 30000000, DelayWeight = 4 / 10\<rparr>,
                \<lparr>Delay = 40000000, DelayWeight = 4 / 10\<rparr>,
                \<lparr>Delay = 50000000, DelayWeight = 2 / 10\<rparr>]\<rparr>"

definition HTTP2APIProfile :: TrafficProfile where
  "HTTP2APIProfile =
     \<lparr>ProfileName = ''HTTP/2 API'',
      PacketSizes = [\<lparr>Size = 200, Weight = 2 / 10\<rparr>, \<lparr>Size = 500, Weight = 3 / 10\<rparr>,
                     \<lparr>Size = 1000, Weight = 3 / 10\<rparr>, \<lparr>Size = 1500, Weight = 2 / 10\<rparr>],
      Delays = [\<lparr>Delay = 5000000, DelayWeight = 3 / 10\<rparr>,
                \<lparr>Delay = 10000000, DelayWeight = 4 / 10\<rparr>,
                \<lparr>Delay = 15000000, DelayWeight = 3 / 10\<rparr>]\<rparr>"

text \<open>
  The random source (\<open>math/rand\<close>): the values \<open>rand.Float64\<close> will return and the
  bytes \<open>rand.Read\<close> will produce, with the positions reached so far.
\<close>

record rng =
  floats :: "nat \<Rightarrow> rat"
  fpos :: nat
  noise :: "nat \<Rightarrow> byte"
  npos :: nat

definition Float64 :: "rng \<Rightarrow> rat \<times> rng" where
  "Float64 g = (floats g (fpos g), g\<lparr>fpos := fpos g + 1\<rparr>)"

definition Read :: "rng \<Rightarrow> nat \<Rightarrow> byte list \<times> rng" where
  "Read g n = (map (noise g) [npos g ..< npos g + n], g\<lparr>npos := npos g + n\<rparr>)"

text \<open>The loops of \<open>GetPacketSize\<close> and \<open>GetDelay\<close>: \<open>None\<close> when they fall through.\<close>

fun pickSize :: "rat \<Rightarrow> rat \<Rightarrow> PacketSizePattern list \<Rightarrow> int option" where
  "pickSize r cumulative [] = None"
| "pickSize r cumulative (pattern # rest) =
     (let cumulative = cumulative + Weight pattern in
        if r \<le> cumulative then Some (Size pattern) else pickSize r cumulative rest)"

fun pickDelay :: "rat \<Rightarrow> rat \<Rightarrow> DelayPattern list \<Rightarrow> int option" where
  "pickDelay r cumulative [] = None"
| "pickDelay r cumulative (pattern # rest) =
     (let cumulative = cumulative + DelayWeight pattern in
        if r \<le> cumulative then Some (Delay pattern) else pickDelay r cumulative rest)"

definition GetPacketSize :: "TrafficProfile \<Rightarrow> rng \<Rightarrow> (error + int) \<times> rng" where
  "GetPacketSize p g =
     (let (r, g') = Float64 g in
        case pickSize r 0 (PacketSizes p) of
          Some sz \<Rightarrow> (Inr sz, g')
        | None \<Rightarrow>
            if PacketSizes p = [] then (Inl (Panic ''index out of range''), g')
            else (Inr (Size (last (PacketSizes p))), g'))"

definition GetDelay :: "TrafficProfile \<Rightarrow> rng \<Rightarrow> (error + int) \<times> rng" where
  "GetDelay p g =
     (let (r, g') = Float64 g in
        case pickDelay r 0 (Delays p) of
          Some delay \<Rightarrow> (Inr delay, g')
        | None \<Rightarrow>
            if Delays p = [] then (Inl (Panic ''index out of range''), g')
            else (Inr (Delay (last (Delays p))), g'))"

definition AddPadding :: "byte list \<Rightarrow> int \<Rightarrow> rng \<Rightarrow> (error + byte list) \<times> rng" where
  "AddPadding data targetSize g =
     (if targetSize \<le> int (length data) then
        (if targetSize < 0 then (Inl (Panic ''slice bounds out of range''), g)
         else (Inr (take (nat targetSize) data), g))
      else
        let (padding, g') = Read g (nat targetSize - length data)
        in (Inr (data @ padding), g'))"

definition GetProfileByName :: "string \<Rightarrow> TrafficProfile" where
  "GetProfileByName name =
     (if name = ''youtube'' then YouTubeProfile
      else if name = ''zoom'' then ZoomProfile
      else if name = ''http2-api'' then HTTP2APIProfile
      else if name = '''' \<or> name = ''default'' then HTTP2APIProfile
      else HTTP2APIProfile)"

record MorphingConfig =
  Enabled :: bool
  Profile :: "TrafficProfile option"

definition NewMorphingConfig :: "bool \<Rightarrow> string \<Rightarrow> MorphingConfig" where
  "NewMorphingConfig enabled profileName =
     \<lparr>Enabled = enabled,
      Profile = (if enabled then Some (GetProfileByName profileName) else None)\<rparr>"

text \<open>
  \<open>WriteFrameWithMorphing\<close>. The configuration is a pointer (\<open>None\<close> is \<open>nil\<close>). The
  function calls itself on the remainder after each split, and does so for ever when
  the sampled size is 0: it is a partial function, \<open>None\<close> where it does not return.
  A negative sampled size panics in the slice. \<open>time.Sleep\<close> changes no data and is
  left out; the draw of the delay is kept. The result is the returned error, the
  encoder, the writer and the random source after the call.
\<close>

partial_function (option) WriteFrameWithMorphing ::
  "('w \<Rightarrow> byte list \<Rightarrow> error + 'w) \<Rightarrow> FrameEncoder \<Rightarrow> 'w \<Rightarrow> rng \<Rightarrow> Frame \<Rightarrow>
   MorphingConfig option \<Rightarrow> (error option \<times> FrameEncoder \<times> 'w \<times> rng) option" where
  "WriteFrameWithMorphing wr e w g frame config =
     (case (case config of
              None \<Rightarrow> None
            | Some c \<Rightarrow> if \<not> Enabled c then None else Profile c) of
        None \<Rightarrow>
          (case WriteFrame wr e w frame of (r, e', w') \<Rightarrow> Some (r, e', w', g))
      | Some profile \<Rightarrow>
          (case GetPacketSize profile g of
             (Inl err, g1) \<Rightarrow> Some (Some err, e, w, g1)
           | (Inr targetSize, g1) \<Rightarrow>
               if targetSize < int (length (Payload frame)) then
                 (if targetSize < 0
                  then Some (Some (Panic ''slice bounds out of range''), e, w, g1)
                  else
                    let firstChunk = take (nat targetSize) (Payload frame);
                        firstFrame = \<lparr>Type = Type frame, Payload = firstChunk\<rparr>
                    in case WriteFrame wr e w firstFrame of
                         (Some err, e1, w1) \<Rightarrow> Some (Some err, e1, w1, g1)
                       | (None, e1, w1) \<Rightarrow>
                           (case GetDelay profile g1 of
                              (Inl err, g2) \<Rightarrow> Some (Some err, e1, w1, g2)
                            | (Inr delay, g2) \<Rightarrow>
                                let remaining = drop (nat targetSize) (Payload frame);
                                    remainingFrame = \<lparr>Type = Type frame, Payload = remaining\<rparr>
                                in WriteFrameWithMorphing wr e1 w1 g2 remainingFrame config))
               else
                 (case AddPadding (Payload frame) targetSize g1 of
                    (Inl err, g2) \<Rightarrow> Some (Some err, e, w, g2)
                  | (Inr paddedPayload, g2) \<Rightarrow>
                      let morphedFrame = \<lparr>Type = Type frame, Payload = paddedPayload\<rparr>
                      in case WriteFrame wr e w morphedFrame of
                           (Some err, e1, w1) \<Rightarrow> Some (Some err, e1, w1, g2)
                         | (None, e1, w1) \<Rightarrow>
                             (case GetDelay profile g2 of
                                (Inl err, g3) \<Rightarrow> Some (Some err, e1, w1, g3)
                              | (Inr delay, g3) \<Rightarrow> Some (None, e1, w1, g3)))))"

text \<open>A writer that keeps what it is given, one entry for each \<open>Write\<close>, and never
  fails (a \<open>bytes.Buffer\<close>).\<close>

definition bufWrite :: "byte list list \<Rightarrow> byte list \<Rightarrow> error + byte list list" where
  "bufWrite w b = Inr (w @ [b])"

text \<open>
  The seed scenario: the zoom profile, a DATA frame of 1500 bytes, and a random source
  whose every draw is 0.5 (which picks size 600 and delay 40 ms) and whose padding
  bytes are all EE.
\<close>

definition zoomConfig :: MorphingConfig where
  "zoomConfig = NewMorphingConfig True ''zoom''"

definition rngHalf :: rng where
  "rngHalf = \<lparr>floats = (\<lambda>_. 1 / 2), fpos = 0, noise = (\<lambda>_. 0xEE), npos = 0\<rparr>"

definition dataFrame1500 :: Frame where
  "dataFrame1500 = \<lparr>Type = 0x01, Payload = replicate 1500 0x41\<rparr>"

definition morphedFrames :: "Frame list" where
  "morphedFrames =
     [\<lparr>Type = 0x01, Payload = replicate 600 0x41\<rparr>,
      \<lparr>Type = 0x01, Payload = replicate 600 0x41\<rparr>,
      \<lparr>Type = 0x01, Payload = replicate 300 0x41 @ replicate 300 0xEE\<rparr>]"

section \<open>Properties of the handshake codec\<close>

lemma be_uint32_bytes:
  "ucast (drop_bit 24 (be_uint32 [a, b, c, d])) = a"
  "ucast (drop_bit 16 (be_uint32 [a, b, c, d])) = b"
  "ucast (drop_bit 8 (be_uint32 [a, b, c, d])) = c"
  "ucast (be_uint32 [a, b, c, d]) = d"
  unfolding be_uint32_def
  by (rule bit_word_eqI; auto simp: bit_simps dest: bit_imp_le_length)+

lemma be_uint32_magic_iff:
  "be_uint32 [a, b, c, d] = ReflexMagic \<longleftrightarrow> a = 0x52 \<and> b = 0x46 \<and> c = 0x58 \<and> d = 0x4C"
proof
  assume m: "be_uint32 [a, b, c, d] = ReflexMagic"
  have "a = ucast (drop_bit 24 ReflexMagic)" "b = ucast (drop_bit 16 ReflexMagic)"
       "c = ucast (drop_bit 8 ReflexMagic)" "d = ucast ReflexMagic"
    using be_uint32_bytes [of a b c d] by (simp_all add: m)
  then show "a = 0x52 \<and> b = 0x46 \<and> c = 0x58 \<and> d = 0x4C"
    by (simp add: ReflexMagic_def drop_bit_eq_div)
next
  assume "a = 0x52 \<and> b = 0x46 \<and> c = 0x58 \<and> d = 0x4C"
  then show "be_uint32 [a, b, c, d] = ReflexMagic"
    by (simp add: be_uint32_def ReflexMagic_def)
qed

text \<open>
  C8. \<open>DecodeClientHandshake\<close> fails with "handshake packet too short" on every input
  of fewer than 76 bytes, and with "invalid magic number" on every input of at least 76
  bytes whose first four bytes, read big-endian, are not 0x5246584C (that is, are not
  the bytes 52 46 58 4C). \<open>DecodeServerHandshake\<close> fails with "handshake response too
  short" on every input of fewer than 40 bytes and checks nothing else: every input of at
  least 40 bytes decodes.
\<close>

theorem C8_decode_handshake_errors:
  "(length data < 76 \<longrightarrow>
      DecodeClientHandshake data = Inl (Error ''handshake packet too short'')) \<and>
   (76 \<le> length data \<and> be_uint32 (slice 0 4 data) \<noteq> ReflexMagic \<longrightarrow>
      DecodeClientHandshake data = Inl (Error ''invalid magic number'')) \<and>
   (76 \<le> length data \<and> slice 0 4 data \<noteq> [0x52, 0x46, 0x58, 0x4C] \<longrightarrow>
      DecodeClientHandshake data = Inl (Error ''invalid magic number'')) \<and>
   (length data < 40 \<longrightarrow>
      DecodeServerHandshake data = Inl (Error ''handshake response too short'')) \<and>
   (40 \<le> length data \<longrightarrow> (\<exists>hs. DecodeServerHandshake data = Inr hs))"
proof -
  have bytes: "be_uint32 (slice 0 4 data) \<noteq> ReflexMagic"
    if len: "76 \<le> length data" and ne: "slice 0 4 data \<noteq> [0x52, 0x46, 0x58, 0x4C]"
  proof -
    have "length (slice 0 4 data) = 4" using len by (simp add: slice_def)
    then obtain a b c d where s: "slice 0 4 data = [a, b, c, d]"
      by (auto simp: length_Suc_conv eval_nat_numeral)
    with ne show ?thesis by (simp add: be_uint32_magic_iff)
  qed
  show ?thesis
    using bytes by (simp add: DecodeClientHandshake_def DecodeServerHandshake_def Let_def)
qed

theorem C8_decode_handshake_errors_witness:
  "DecodeClientHandshake (replicate 75 0) = Inl (Error ''handshake packet too short'') \<and>
   DecodeClientHandshake ([0xFF, 0xFF, 0xFF, 0xFF] @ replicate 72 0)
     = Inl (Error ''invalid magic number'') \<and>
   DecodeServerHandshake (replicate 39 0) = Inl (Error ''handshake response too short'') \<and>
   (\<exists>hs. DecodeServerHandshake (replicate 40 0xFF) = Inr hs)"
proof -
  have 1: "be_uint32 (slice 0 4 ([0xFF, 0xFF, 0xFF, 0xFF] @ replicate 72 0)) \<noteq> ReflexMagic"
    by (simp add: be_uint32_def ReflexMagic_def slice_def)
  show ?thesis
    using C8_decode_handshake_errors [of "replicate 75 0"]
      C8_decode_handshake_errors [of "[0xFF, 0xFF, 0xFF, 0xFF] @ replicate 72 0"]
      C8_decode_handshake_errors [of "replicate 39 0"]
      C8_decode_handshake_errors [of "replicate 40 0xFF"] 1
    by simp
qed

subsection \<open>The timestamp window\<close>

lemma signed_take_bit_63_self:
  "- (2 ^ 63) \<le> x \<Longrightarrow> x < 2 ^ 63 \<Longrightarrow> signed_take_bit 63 (x::int) = x"
  by (simp add: signed_take_bit_int_eq_self)

lemma signed_take_bit_63_wrap:
  assumes "2 ^ 63 \<le> x" "x < 3 * 2 ^ 63"
  shows "signed_take_bit 63 (x::int) = x - 2 ^ 64"
proof -
  have "signed_take_bit 63 x = signed_take_bit 63 (x - 2 ^ 64)"
    by (simp add: signed_take_bit_eq_iff_take_bit_eq take_bit_eq_mod)
  also have "\<dots> = x - 2 ^ 64"
    using assms by (intro signed_take_bit_int_eq_self) simp_all
  finally show ?thesis .
qed

text \<open>The function on the integers the words stand for.\<close>

lemma ValidateTimestamp_sint:
  "ValidateTimestamp now ts \<longleftrightarrow>
     (let d = signed_take_bit 63 (sint now - sint ts);
          d = (if d < 0 then signed_take_bit 63 (- d) else d)
      in d \<le> 120)"
proof -
  have 1: "sint (now - ts) = signed_take_bit 63 (sint now - sint ts)"
    by (simp add: sint_word_ariths)
  have 2: "sint (- (now - ts)) = signed_take_bit 63 (- sint (now - ts))"
    by (simp only: sint_word_ariths) simp
  have 3: "sint (120 :: 64 word) = 120" "sint (0 :: 64 word) = 0" by simp_all
  show ?thesis
    unfolding ValidateTimestamp_def Let_def word_sless_alt word_sle_eq
    by (simp only: 1 2 3 if_distrib [of sint] cong: if_cong)
qed

text \<open>
  What the code computes, for every clock value from 0 up to 120 seconds before the end
  of the \<open>int64\<close> range: the timestamp is accepted when it is within 120 seconds of
  \<open>now\<close>, and also at the one timestamp \<open>now - 2^63\<close>, where the difference wraps to
  the most negative \<open>int64\<close>, whose negation is itself.
\<close>

lemma ValidateTimestamp_window:
  assumes "0 \<le> sint now" "sint now < 2 ^ 63 - 120"
  shows "ValidateTimestamp now ts \<longleftrightarrow>
     (\<bar>sint now - sint ts\<bar> \<le> 120 \<or> sint now - sint ts = 2 ^ 63)"
proof -
  define d where "d = sint now - sint ts"
  have r: "- (2 ^ 63) \<le> sint ts" "sint ts < 2 ^ 63"
    using sint_range_size [of ts] by (simp_all add: word_size)
  have d: "- (2 ^ 63) < d" "d < 2 ^ 64 - 120"
    using assms r by (simp_all add: d_def)
  consider (small) "d < 2 ^ 63" | (edge) "d = 2 ^ 63" | (big) "2 ^ 63 < d" by linarith
  then have "(let e = signed_take_bit 63 d;
                  e = (if e < 0 then signed_take_bit 63 (- e) else e)
              in e \<le> 120) \<longleftrightarrow> (\<bar>d\<bar> \<le> 120 \<or> d = 2 ^ 63)"
  proof cases
    case small
    then have 1: "signed_take_bit 63 d = d"
      using d by (simp add: signed_take_bit_63_self)
    have 2: "d < 0 \<Longrightarrow> signed_take_bit 63 (- d) = - d"
      using d by (simp add: signed_take_bit_63_self)
    show ?thesis using small 1 2 by (auto simp: Let_def)
  next
    case edge
    have 1: "signed_take_bit 63 d = - (2 ^ 63)"
      using signed_take_bit_63_wrap [of d] edge by simp
    have 2: "signed_take_bit 63 (- (- (2 ^ 63 :: int))) = - (2 ^ 63)"
      using signed_take_bit_63_wrap [of "2 ^ 63"] by simp
    show ?thesis unfolding Let_def 1 using 2 edge by simp
  next
    case big
    then have 1: "signed_take_bit 63 d = d - 2 ^ 64"
      using d by (simp add: signed_take_bit_63_wrap)
    have 2: "signed_take_bit 63 (- (d - 2 ^ 64)) = 2 ^ 64 - d"
      using d big by (simp add: signed_take_bit_63_self)
    show ?thesis unfolding Let_def 1 using 2 big d by simp
  qed
  then show ?thesis unfolding ValidateTimestamp_sint d_def .
qed

text \<open>
  C6. The claim: \<open>ValidateTimestamp\<close> returns true exactly when the timestamp is within
  120 seconds of the clock. The code keeps the boundary (120 seconds away, either side,
  is accepted; 121 is rejected; 0 and -1000 are rejected), but at the clock value
  1700000000 it also accepts the timestamp -9223372035154775808, which is 2^63 seconds
  in the past: \<open>now - timestamp\<close> overflows to the most negative \<open>int64\<close>, the negation
  leaves it unchanged, and it is below 120.
\<close>

theorem C6_ValidateTimestamp_overflow:
  "ValidateTimestamp 1700000000 (1700000000 - 120) \<and>
   ValidateTimestamp 1700000000 (1700000000 + 120) \<and>
   \<not> ValidateTimestamp 1700000000 (1700000000 - 121) \<and>
   \<not> ValidateTimestamp 1700000000 (1700000000 + 121) \<and>
   \<not> ValidateTimestamp 1700000000 0 \<and>
   \<not> ValidateTimestamp 1700000000 (- 1000) \<and>
   sint (1700000000 :: 64 word) - sint (- 9223372035154775808 :: 64 word) = 2 ^ 63 \<and>
   ValidateTimestamp 1700000000 (- 9223372035154775808)"
  by (simp add: ValidateTimestamp_def word_sless_alt word_sle_eq)

section \<open>Properties of the user validator\<close>

lemma Remove_result:
  "Remove ks v email = (r, v') \<Longrightarrow>
     (r = None \<and> (\<exists>k u. k \<in> set ks \<and> users v k = Some u \<and> Email u = email \<and>
         v' = v\<lparr>users := (users v)(k := None)\<rparr>)) \<or>
     (r = Some (Error ''user not found'') \<and> v' = v \<and>
        (\<forall>k\<in>set ks. \<forall>u. users v k = Some u \<longrightarrow> Email u \<noteq> email))"
  by (induction ks) (auto split: option.splits if_splits)

text \<open>
  C9, as the code has it. After \<open>Add(u)\<close> succeeds, \<open>Get(u.id)\<close> returns \<open>u\<close> (so its
  email is \<open>u.email\<close>), and a second \<open>Add\<close> under the same ID replaces the first. For a
  user \<open>u\<close> stored under \<open>uid\<close> whose email no entry under another ID shares,
  \<open>Remove(u.email)\<close> succeeds and \<open>Get(uid)\<close> then returns "user not found", whatever
  order the map is ranged over. \<open>Remove\<close> of an email that no user holds returns "user
  not found" and leaves the map as it was.
\<close>

theorem C9_validator_consistency:
  "(Account u = MemoryAccount idb pol \<longrightarrow>
      fst (Add v u) = None \<and> Get (snd (Add v u)) (copy16 idb) = Inr u) \<and>
   (Account u = MemoryAccount idb pol \<and> Account u' = MemoryAccount idb pol' \<longrightarrow>
      Get (snd (Add (snd (Add v u)) u')) (copy16 idb) = Inr u') \<and>
   (set ks = dom (users v) \<and> users v uid = Some u \<and>
    (\<forall>k u'. users v k = Some u' \<and> Email u' = Email u \<longrightarrow> k = uid) \<longrightarrow>
      fst (Remove ks v (Email u)) = None \<and>
      Get (snd (Remove ks v (Email u))) uid = Inl (Error ''user not found'')) \<and>
   (set ks = dom (users v) \<and> (\<forall>k u'. users v k = Some u' \<longrightarrow> Email u' \<noteq> email) \<longrightarrow>
      Remove ks v email = (Some (Error ''user not found''), v))"
proof (intro conjI impI)
  assume "Account u = MemoryAccount idb pol"
  then show "fst (Add v u) = None" "Get (snd (Add v u)) (copy16 idb) = Inr u"
    by (simp_all add: Add_def Get_def)
next
  assume "Account u = MemoryAccount idb pol \<and> Account u' = MemoryAccount idb pol'"
  then show "Get (snd (Add (snd (Add v u)) u')) (copy16 idb) = Inr u'"
    by (simp add: Add_def Get_def)
next
  assume a: "set ks = dom (users v) \<and> users v uid = Some u \<and>
    (\<forall>k u'. users v k = Some u' \<and> Email u' = Email u \<longrightarrow> k = uid)"
  obtain r v' where rv: "Remove ks v (Email u) = (r, v')" by (cases "Remove ks v (Email u)")
  from a have "uid \<in> set ks" by auto
  with Remove_result [OF rv] a have "r = None \<and> v' = v\<lparr>users := (users v)(uid := None)\<rparr>"
    by auto
  then show "fst (Remove ks v (Email u)) = None"
    "Get (snd (Remove ks v (Email u))) uid = Inl (Error ''user not found'')"
    by (simp_all add: rv Get_def)
next
  assume a: "set ks = dom (users v) \<and> (\<forall>k u'. users v k = Some u' \<longrightarrow> Email u' \<noteq> email)"
  obtain r v' where rv: "Remove ks v email = (r, v')" by (cases "Remove ks v email")
  with Remove_result [OF rv] a show "Remove ks v email = (Some (Error ''user not found''), v)"
    by auto
qed

theorem C9_validator_consistency_witness:
  "Get validatorA (replicate 16 0xAA) = Inr userA \<and>
   Get (snd (Add validatorA userA2)) (replicate 16 0xAA) = Inr userA2 \<and>
   fst (Remove [replicate 16 0xAA] validatorA ''shared@example.com'') = None \<and>
   Get (snd (Remove [replicate 16 0xAA] validatorA ''shared@example.com'')) (replicate 16 0xAA)
     = Inl (Error ''user not found'') \<and>
   Remove [replicate 16 0xAA] validatorA ''nobody@example.com''
     = (Some (Error ''user not found''), validatorA)"
proof -
  have acc: "Account userA = MemoryAccount (replicate 16 0xAA) []"
    "Account userA2 = MemoryAccount (replicate 16 0xAA) ''youtube''"
    by (simp_all add: userA_def userA2_def)
  have c: "copy16 (replicate 16 0xAA) = replicate 16 0xAA" by (simp add: copy16_def)
  have u: "users validatorA = [replicate 16 0xAA \<mapsto> userA]"
    by (simp add: validatorA_def Add_def NewValidator_def userA_def copy16_def)
  have e: "Email userA = ''shared@example.com''" by (simp add: userA_def)
  have h1: "set [replicate 16 (0xAA :: byte)] = dom (users validatorA)" by (simp add: u)
  have h2: "users validatorA (replicate 16 0xAA) = Some userA" by (simp add: u)
  have h3: "\<forall>k u'. users validatorA k = Some u' \<and> Email u' = Email userA
              \<longrightarrow> k = replicate 16 0xAA"
    by (simp add: u)
  have h4: "\<forall>k u'. users validatorA k = Some u' \<longrightarrow> Email u' \<noteq> ''nobody@example.com''"
    by (simp add: u e)
  note t = C9_validator_consistency [where u = userA and idb = "replicate 16 0xAA"
      and pol = "[]" and v = NewValidator and u' = userA2 and pol' = "''youtube''"]
  note r = C9_validator_consistency [where u = userA and v = validatorA
      and ks = "[replicate 16 0xAA]" and uid = "replicate 16 0xAA"
      and email = "''nobody@example.com''"]
  show ?thesis
    using t r acc h1 h2 h3 h4 by (simp add: c e validatorA_def [symmetric])
qed

text \<open>
  The claim as written fails where two users share an email (for instance two clients
  configured without one): \<open>Remove\<close> deletes one of them and returns, and the other is
  still found. With both example users stored, whichever of the two the \<open>range\<close> visits
  first, \<open>Remove\<close> of their email succeeds and one user holding that email remains.
\<close>

theorem C9_remove_counterexample:
  "Email userB = ''shared@example.com'' \<and>
   Get validatorAB (replicate 16 0xBB) = Inr userB \<and>
   fst (Remove [replicate 16 0xAA, replicate 16 0xBB] validatorAB ''shared@example.com'') = None \<and>
   Get (snd (Remove [replicate 16 0xAA, replicate 16 0xBB] validatorAB ''shared@example.com''))
     (replicate 16 0xBB) = Inr userB \<and>
   Email userA = ''shared@example.com'' \<and>
   Get validatorAB (replicate 16 0xAA) = Inr userA \<and>
   fst (Remove [replicate 16 0xBB, replicate 16 0xAA] validatorAB ''shared@example.com'') = None \<and>
   Get (snd (Remove [replicate 16 0xBB, replicate 16 0xAA] validatorAB ''shared@example.com''))
     (replicate 16 0xAA) = Inr userA"
  by (simp add: validatorAB_def validatorA_def userA_def userB_def NewValidator_def Add_def
      Get_def copy16_def)

section \<open>Properties of the fallback lookup\<close>

lemma findFallback_first_entry:
  "fallbacks h = Some fbs \<Longrightarrow>
     findFallback h name alpn path = first_entry fbs (lookup_order name alpn path)"
  by (simp add: findFallback_def lookup_order_def table_entry_def split: option.splits)

lemma first_entry_None_iff:
  "first_entry fbs ks = None \<longleftrightarrow> (\<forall>k\<in>set ks. table_entry fbs k = None)"
  by (induction ks) (auto split: option.splits)

text \<open>
  C5. For every query (name, alpn, path), \<open>findFallback\<close> returns the first entry found
  in the order exact name then empty name; within each, exact ALPN then empty ALPN;
  within each, exact path then empty path (and nothing when the table is nil). When it
  finds none, \<open>handleFallback\<close> looks up ("", "", "") as a last resort, and rejects the
  connection with "no fallback configured" when that finds none either. (The last
  resort's triple is already the last of the eight, so it never finds an entry the
  first lookup missed.)
\<close>

theorem C5_fallback_lookup_order:
  "(fallbacks h = Some fbs \<longrightarrow>
      findFallback h name alpn path = first_entry fbs (lookup_order name alpn path)) \<and>
   (fallbacks h = None \<longrightarrow> findFallback h name alpn path = None) \<and>
   handleFallback h name alpn path =
     (case findFallback h name alpn path of
        Some fb \<Rightarrow> Inr fb
      | None \<Rightarrow>
          (case findFallback h '''' '''' '''' of
             Some fb \<Rightarrow> Inr fb
           | None \<Rightarrow> Inl (Error ''no fallback configured''))) \<and>
   (findFallback h name alpn path = None \<longrightarrow> findFallback h '''' '''' '''' = None)"
proof -
  have last: "findFallback h [] [] [] = None" if n: "findFallback h name alpn path = None"
  proof (cases "fallbacks h")
    case None
    then show ?thesis by (simp add: findFallback_def)
  next
    case (Some fbs)
    from n have "first_entry fbs (lookup_order name alpn path) = None"
      by (simp add: findFallback_first_entry [OF Some])
    then have "\<forall>k\<in>set (lookup_order name alpn path). table_entry fbs k = None"
      by (simp only: first_entry_None_iff)
    moreover have "([], [], []) \<in> set (lookup_order name alpn path)"
      by (simp add: lookup_order_def)
    ultimately have "table_entry fbs ([], [], []) = None" by blast
    then have "first_entry fbs (lookup_order [] [] []) = None"
      unfolding first_entry_None_iff by (simp add: lookup_order_def)
    then show ?thesis by (simp add: findFallback_first_entry [OF Some])
  qed
  have nil: "fallbacks h = None \<longrightarrow> findFallback h name alpn path = None"
    by (simp add: findFallback_def)
  have hf: "handleFallback h name alpn path =
     (case findFallback h name alpn path of
        Some fb \<Rightarrow> Inr fb
      | None \<Rightarrow>
          (case findFallback h [] [] [] of
             Some fb \<Rightarrow> Inr fb
           | None \<Rightarrow> Inl (Error ''no fallback configured'')))"
    by (cases "findFallback h name alpn path") (simp_all add: handleFallback_def Let_def)
  show ?thesis
    using last nil hf findFallback_first_entry [of h fbs name alpn path] by blast
qed

theorem C5_fallback_lookup_order_witness:
  "findFallback handlerFB ''example.com'' ''http/1.1'' ''/api'' = Some fbApi \<and>
   findFallback handlerFB ''example.com'' ''http/1.1'' ''/'' = Some fbDefault \<and>
   findFallback \<lparr>validator = validatorA, fallbacks = None\<rparr> ''example.com'' ''tls'' [] = None \<and>
   handleFallback handlerFB ''other.org'' ''tls'' [] = Inr fbDefault \<and>
   handleFallback \<lparr>validator = validatorA, fallbacks = None\<rparr> ''example.com'' ''tls'' []
     = Inl (Error ''no fallback configured'')"
proof -
  define fbs where "fbs = add_fallback (add_fallback Map.empty fbDefault) fbApi"
  have f: "fallbacks handlerFB = Some fbs" by (simp add: handlerFB_def fbs_def)
  have n: "fallbacks \<lparr>validator = validatorA, fallbacks = None\<rparr> = None" by simp
  note e = table_entry_def add_fallback_def fbDefault_def fbApi_def Let_def lookup_order_def
  have 1: "first_entry fbs (lookup_order ''example.com'' ''http/1.1'' ''/api'') = Some fbApi"
    by (simp add: fbs_def e)
  have 2: "first_entry fbs (lookup_order ''example.com'' ''http/1.1'' ''/'') = Some fbDefault"
    by (simp add: fbs_def e)
  have 3: "first_entry fbs (lookup_order ''other.org'' ''tls'' []) = Some fbDefault"
    by (simp add: fbs_def e)
  show ?thesis
    using C5_fallback_lookup_order [of handlerFB fbs "''example.com''" "''http/1.1''" "''/api''"]
      C5_fallback_lookup_order [of handlerFB fbs "''example.com''" "''http/1.1''" "''/''"]
      C5_fallback_lookup_order [of handlerFB fbs "''other.org''" "''tls''" "[]"]
      C5_fallback_lookup_order [of "\<lparr>validator = validatorA, fallbacks = None\<rparr>" fbs
        "''example.com''" "''tls''" "[]"]
    by (simp add: f 1 2 3)
qed

section \<open>Properties of the inbound session\<close>

text \<open>
  C3. On the inbound path, when the 76-byte client handshake decodes, its timestamp
  validates and its user ID is not in the validator, the handler returns what
  \<open>handleFallback\<close> returns (it hands the connection to the fallback demultiplexer, and
  has written nothing to it); when the timestamp fails validation the handler returns the
  error "invalid timestamp" and does not fall back, whether or not the user is known.
\<close>

theorem C3_unknown_user_falls_back:
  "(76 \<le> length input \<and> DecodeClientHandshake (take 76 input) = Inr hs \<and>
    ValidateTimestamp now (Timestamp hs) \<and> users (validator h) (UserID hs) = None \<longrightarrow>
      handleReflexHandshake h now input = HandleFallback \<and>
      Process h now input = HandleFallback) \<and>
   (76 \<le> length input \<and> DecodeClientHandshake (take 76 input) = Inr hs \<and>
    \<not> ValidateTimestamp now (Timestamp hs) \<longrightarrow>
      handleReflexHandshake h now input = Return (Error ''invalid timestamp'') \<and>
      Process h now input = Return (Error ''invalid timestamp''))"
proof -
  have p: "Process h now input = handleReflexHandshake h now input"
    if "76 \<le> length input" "DecodeClientHandshake (take 76 input) = Inr hs"
    using that
    by (auto simp: Process_def DecodeClientHandshake_def Let_def slice_def split: if_splits)
  show ?thesis
    using p by (simp add: handleReflexHandshake_def Get_def)
qed

lemma DecodeClientHandshake_handshakeBytes:
  "length uid = 16 \<Longrightarrow> length ts = 8 \<Longrightarrow>
   DecodeClientHandshake (take 76 (handshakeBytes uid ts)) =
     Inr \<lparr>PublicKey = replicate 32 0, UserID = uid, Timestamp = be_uint64 ts,
          Nonce = replicate 16 0\<rparr>"
  by (simp add: DecodeClientHandshake_def handshakeBytes_def slice_def be_uint32_def
      ReflexMagic_def)

theorem C3_unknown_user_falls_back_witness:
  "handleReflexHandshake handlerFB 1700000000
     (handshakeBytes (replicate 16 0x11) [0, 0, 0, 0, 0x65, 0x53, 0xF1, 0x00]) = HandleFallback \<and>
   handleReflexHandshake handlerFB 1700000000
     (handshakeBytes (replicate 16 0xAA) [0, 0, 0, 0, 0, 0, 0, 0])
     = Return (Error ''invalid timestamp'') \<and>
   Process handlerFB 1700000000
     (handshakeBytes (replicate 16 0x11) [0, 0, 0, 0, 0x65, 0x53, 0xF1, 0x00]) = HandleFallback \<and>
   Process handlerFB 1700000000
     (handshakeBytes (replicate 16 0xAA) [0, 0, 0, 0, 0, 0, 0, 0])
     = Return (Error ''invalid timestamp'')"
proof -
  let ?i1 = "handshakeBytes (replicate 16 0x11) [0, 0, 0, 0, 0x65, 0x53, 0xF1, 0x00]"
  let ?i2 = "handshakeBytes (replicate 16 0xAA) [0, 0, 0, 0, 0, 0, 0, 0]"
  let ?h1 = "\<lparr>PublicKey = replicate 32 0, UserID = replicate 16 0x11,
              Timestamp = 1700000000, Nonce = replicate 16 0\<rparr>"
  let ?h2 = "\<lparr>PublicKey = replicate 32 0, UserID = replicate 16 0xAA,
              Timestamp = 0, Nonce = replicate 16 0\<rparr>"
  have l: "76 \<le> length ?i1" "76 \<le> length ?i2" by (simp_all add: handshakeBytes_def)
  have d1: "DecodeClientHandshake (take 76 ?i1) = Inr ?h1"
    by (simp add: DecodeClientHandshake_handshakeBytes be_uint64_def)
  have d2: "DecodeClientHandshake (take 76 ?i2) = Inr ?h2"
    by (simp add: DecodeClientHandshake_handshakeBytes be_uint64_def)
  have v1: "ValidateTimestamp 1700000000 (Timestamp ?h1)"
    by (simp add: ValidateTimestamp_def word_sless_alt word_sle_eq)
  have v2: "\<not> ValidateTimestamp 1700000000 (Timestamp ?h2)"
    by (simp add: ValidateTimestamp_def word_sless_alt word_sle_eq)
  have u: "users (validator handlerFB) (UserID ?h1) = None"
    by (simp add: handlerFB_def validatorA_def Add_def NewValidator_def userA_def copy16_def)
  show ?thesis
    using C3_unknown_user_falls_back [of ?i1 ?h1 1700000000 handlerFB]
      C3_unknown_user_falls_back [of ?i2 ?h2 1700000000 handlerFB]
      l d1 d2 v1 v2 u
    by simp
qed

lemma requestDone_first_eq:
  "requestDone_first payload = (if 12 < length payload then Some (drop 12 payload) else None)"
  by (simp add: requestDone_first_def)

text \<open>
  C7. The claim: the bytes of the first DATA frame's payload that follow the request
  header (8 bytes for IPv4, 20 for IPv6, 5 plus the domain length for a domain) are
  relayed to the dispatcher link, unchanged and in full. The code skips a fixed 12
  bytes instead. For the accepted IPv4 request followed by "GET " the four bytes after
  the 8-byte header are not relayed (nothing is written); for the accepted IPv6 request
  with nothing after its 20-byte header, the last 8 bytes of the address are written to
  the link as user data.
\<close>

theorem C7_first_frame_remainder:
  "parseRequestHeader payloadIPv4 =
     Inr \<lparr>Version = 1, Command = 1, Port = 443, Address = Some (IPAddress [10, 0, 0, 1])\<rparr> \<and>
   spec_header_size payloadIPv4 = 8 \<and>
   drop (spec_header_size payloadIPv4) payloadIPv4 = [0x47, 0x45, 0x54, 0x20] \<and>
   requestDone_first payloadIPv4 = None \<and>
   parseRequestHeader payloadIPv6 =
     Inr \<lparr>Version = 1, Command = 1, Port = 443, Address = Some (IPAddress
       [0x20, 0x01, 0x0D, 0xB8, 0, 0, 0, 0, 0, 0, 0, 0, 0, 0, 0, 1])\<rparr> \<and>
   spec_header_size payloadIPv6 = 20 \<and>
   drop (spec_header_size payloadIPv6) payloadIPv6 = [] \<and>
   requestDone_first payloadIPv6 = Some [0, 0, 0, 0, 0, 0, 0, 1]"
  by (simp add: parseRequestHeader_def requestDone_first_def spec_header_size_def
      payloadIPv4_def payloadIPv6_def slice_def be_uint16_def Let_def)

section \<open>Properties of the frame codec\<close>

lemma be_uint16_put: "be_uint16 (be_put_uint16 v) = v"
proof (rule bit_word_eqI)
  fix n assume "n < LENGTH(16)"
  then show "bit (be_uint16 (be_put_uint16 v)) n = bit v n"
    by (cases "n < 8") (auto simp: be_uint16_def be_put_uint16_def bit_simps)
qed

lemma length_be_put_uint16 [simp]: "length (be_put_uint16 v) = 2"
  by (simp add: be_put_uint16_def)

lemma length_le_put_uint64 [simp]: "length (le_put_uint64 v) = 8"
  by (simp add: le_put_uint64_def)

lemma byte_of_word64:
  "bit (ucast (drop_bit q (v :: 64 word)) :: byte) r \<longleftrightarrow> r < 8 \<and> bit v (q + r)"
  by (auto simp: bit_simps)

lemma le_put_uint64_inj:
  assumes "le_put_uint64 v = le_put_uint64 w"
  shows "v = w"
proof (rule bit_word_eqI)
  fix n assume n: "n < LENGTH(64)"
  have b: "(ucast (drop_bit q v) :: byte) = ucast (drop_bit q w)"
    if "q \<in> {0, 8, 16, 24, 32, 40, 48, 56}" for q
    using assms that unfolding le_put_uint64_def by auto
  define q where "q = 8 * (n div 8)"
  define r where "r = n mod 8"
  have "n div 8 < 8" using n by simp
  then have "n div 8 \<in> {0, 1, 2, 3, 4, 5, 6, 7}" by auto
  then have q: "q \<in> {0, 8, 16, 24, 32, 40, 48, 56}" unfolding q_def by auto
  have nr: "n = q + r" "r < 8" by (simp_all add: q_def r_def)
  have "bit v (q + r) = bit (ucast (drop_bit q v) :: byte) r"
    using nr by (simp add: byte_of_word64)
  also have "\<dots> = bit (ucast (drop_bit q w) :: byte) r" by (simp add: b [OF q])
  also have "\<dots> = bit w (q + r)" using nr by (simp add: byte_of_word64)
  finally show "bit v n = bit w n" using nr by simp
qed

lemma le_put_uint64_0: "le_put_uint64 0 = replicate 8 0"
  by (simp add: le_put_uint64_def eval_nat_numeral)

subsection \<open>One frame\<close>

lemma Encode_no_error:
  "8 \<le> length (nonce e) \<Longrightarrow>
     Encode e f =
       (Inr (be_put_uint16 (of_nat (length (Seal (aead e)
               (le_put_uint64 (counter e + 1) @ drop 8 (nonce e)) (Type f # Payload f))))
             @ Seal (aead e) (le_put_uint64 (counter e + 1) @ drop 8 (nonce e))
                 (Type f # Payload f)),
        e\<lparr>nonce := le_put_uint64 (counter e + 1) @ drop 8 (nonce e), counter := counter e + 1\<rparr>)"
  by (simp add: Encode_def Let_def)

lemma Encode_codec_at:
  assumes "aead_contract a"
  shows "Encode (codec_at a c) f = (Inr (wire a (c + 1) f), codec_at a (c + 1))"
  using assms by (simp add: Encode_def codec_at_def wire_def aead_contract_def Let_def ac_simps)

text \<open>What \<open>Decode\<close> does with a length prefix that matches the bytes after it.\<close>

lemma Decode_framed:
  assumes "length ct \<le> 65533" "8 \<le> length (nonce d)"
  shows "Decode d (be_put_uint16 (of_nat (length ct)) @ ct) =
     (let n = le_put_uint64 (counter d + 1) @ drop 8 (nonce d);
          d' = d\<lparr>nonce := n, counter := counter d + 1\<rparr>
      in case Open (aead d) n ct of
           None \<Rightarrow> (Inl (Error ''decryption failed''), d')
         | Some p \<Rightarrow>
             if length p < 1 then (Inl (Error ''invalid plaintext''), d')
             else (Inr \<lparr>Type = p ! 0, Payload = drop 1 p\<rparr>, d'))"
proof -
  let ?data = "be_put_uint16 (of_nat (length ct)) @ ct"
  let ?n = "le_put_uint64 (counter d + 1) @ drop 8 (nonce d)"
  have h: "be_uint16 (slice 0 2 ?data) = of_nat (length ct)"
    by (simp add: slice_def be_uint16_put)
  have u: "unat (2 + of_nat (length ct) :: 16 word) = Suc (Suc (length ct))"
    using assms(1) by (simp add: unat_word_ariths unat_of_nat)
  have s: "slice 2 (Suc (Suc (length ct))) ?data = ct" by (simp add: slice_def)
  have t: "(if 0 < length p - 1 then drop 1 p else []) = drop 1 p" for p :: "byte list"
    by simp
  show ?thesis
  proof (cases "Open (aead d) ?n ct")
    case None
    then show ?thesis using assms(2) by (simp add: Decode_def h u s Let_def)
  next
    case (Some p)
    then show ?thesis using assms(2) by (simp add: Decode_def h u s t Let_def del: drop_Suc)
  qed
qed

lemma Decode_codec_at_same:
  assumes "aead_contract a" "length (Payload f) \<le> 65516"
  shows "Decode (codec_at a c) (wire a (c + 1) f) = (Inr f, codec_at a (c + 1))"
proof -
  let ?n = "le_put_uint64 (c + 1) @ replicate 4 0"
  let ?ct = "Seal a ?n (Type f # Payload f)"
  have l: "length ?ct = length (Payload f) + 17"
    using assms(1) by (simp add: aead_contract_def)
  have w: "wire a (c + 1) f = be_put_uint16 (of_nat (length ?ct)) @ ?ct"
    by (simp add: wire_def l)
  have o: "Open a ?n ?ct = Some (Type f # Payload f)"
    using assms(1) by (simp add: aead_contract_def)
  have "Decode (codec_at a c) (be_put_uint16 (of_nat (length ?ct)) @ ?ct)
          = (Inr \<lparr>Type = Type f, Payload = Payload f\<rparr>, codec_at a (c + 1))"
    using assms(2) by (subst Decode_framed) (simp_all add: l codec_at_def o Let_def)
  then show ?thesis by (simp add: w)
qed


lemma NewFrameEncoder_codec_at:
  assumes "new k = Inr a" "aead_contract a"
  shows "NewFrameEncoder new k = Inr (codec_at a 0)" "NewFrameDecoder new k = Inr (codec_at a 0)"
  using assms
  by (simp_all add: NewFrameEncoder_def NewFrameDecoder_def codec_at_def aead_contract_def
      le_put_uint64_0 replicate_add [symmetric])

text \<open>The stand-in cipher meets the contract and binds the nonce.\<close>

lemma length_tag_of [simp]: "length (tag_of key n) = 16"
  by (simp add: tag_of_def)

lemma tagAEAD_contract: "aead_contract (tagAEAD key)"
  by (auto simp: aead_contract_def tagAEAD_def split: if_splits)


lemma tagNew_contract: "cipher_contract tagNew"
  by (simp add: cipher_contract_def tagNew_def tagAEAD_contract)

text \<open>
  C1. For every 32-byte session key \<open>k\<close> and every frame \<open>f\<close> whose payload has at
  most 16384 bytes: a freshly constructed encoder keyed with \<open>k\<close> encodes \<open>f\<close> without
  error, and a freshly constructed decoder keyed with \<open>k\<close> decodes the result to a frame
  equal to \<open>f\<close> (same type byte, same payload bytes), given a cipher that meets the
  contract of ChaCha20-Poly1305.
\<close>

theorem C1_frame_round_trip:
  assumes "cipher_contract new" "length k = 32" "length (Payload f) \<le> MaxFramePayloadSize"
  shows "\<exists>e d out e'. NewFrameEncoder new k = Inr e \<and> NewFrameDecoder new k = Inr d \<and>
           Encode e f = (Inr out, e') \<and> fst (Decode d out) = Inr f"
proof -
  from assms(1,2) obtain a where a: "new k = Inr a" "aead_contract a"
    by (auto simp: cipher_contract_def)
  have "length (Payload f) \<le> 65516" using assms(3) by (simp add: MaxFramePayloadSize_def)
  then have "Decode (codec_at a 0) (wire a (0 + 1) f) = (Inr f, codec_at a (0 + 1))"
    by (rule Decode_codec_at_same [OF a(2)])
  then show ?thesis
    using NewFrameEncoder_codec_at [of new k a] a Encode_codec_at [OF a(2), of 0 f] by auto
qed

theorem C1_frame_round_trip_witness:
  "\<exists>e d out e'. NewFrameEncoder tagNew key0 = Inr e \<and> NewFrameDecoder tagNew key0 = Inr d \<and>
      Encode e helloFrame = (Inr out, e') \<and> fst (Decode d out) = Inr helloFrame"
proof -
  have "length key0 = 32" by (simp add: key0_def)
  moreover have "length (Payload helloFrame) \<le> MaxFramePayloadSize"
    by (simp add: helloFrame_def MaxFramePayloadSize_def)
  ultimately show ?thesis
    using C1_frame_round_trip [OF tagNew_contract, of key0 helloFrame] by blast
qed

subsection \<open>Frames in order, and replays\<close>

lemma EncodeAll_codec_at:
  "aead_contract a \<Longrightarrow>
     EncodeAll (codec_at a c) fs = (wires a c fs, codec_at a (c + of_nat (length fs)))"
proof (induction fs arbitrary: c)
  case Nil
  then show ?case by simp
next
  case (Cons f fs)
  show ?case
    by (simp add: Encode_codec_at [OF Cons.prems] Cons.IH [OF Cons.prems] ac_simps)
qed

lemma DecodeAll_codec_at:
  "aead_contract a \<Longrightarrow> \<forall>f\<in>set fs. length (Payload f) \<le> 65516 \<Longrightarrow>
     DecodeAll (codec_at a c) (wires a c fs) = (map Inr fs, codec_at a (c + of_nat (length fs)))"
proof (induction fs arbitrary: c)
  case Nil
  then show ?case by simp
next
  case (Cons f fs)
  have 1: "Decode (codec_at a c) (wire a (c + 1) f) = (Inr f, codec_at a (c + 1))"
    using Cons.prems by (intro Decode_codec_at_same) simp_all
  have 2: "DecodeAll (codec_at a (c + 1)) (wires a (c + 1) fs)
             = (map Inr fs, codec_at a (c + 1 + of_nat (length fs)))"
    using Cons.prems by (intro Cons.IH) simp_all
  have "DecodeAll (codec_at a c) (wires a c (f # fs))
          = (Inr f # map Inr fs, codec_at a (c + 1 + of_nat (length fs)))"
    by (simp only: wires.simps DecodeAll.simps 1 2 fst_conv snd_conv)
  then show ?case by (simp add: ac_simps)
qed

lemma length_wires [simp]: "length (wires a c fs) = length fs"
  by (induction fs arbitrary: c) simp_all



text \<open>
  The claim's own reason, for every decoder state: a frame sealed under a counter value
  that is not 0 and is at most the decoder's counter is rejected with "decryption
  failed", because the decoder's next counter value, and so its nonce, is another one.
  The cipher is taken to reject a ciphertext under any nonce but its own.
\<close>

lemma word64_advanced_neq:
  assumes "cf \<noteq> 0" "cf \<le> cd"
  shows "cf \<noteq> cd + (1 :: 64 word)"
proof
  assume eq: "cf = cd + 1"
  have le: "unat cf \<le> unat cd" using assms(2) by (simp add: word_le_nat_alt)
  have u: "unat cf = (unat cd + 1) mod 2 ^ 64"
    by (simp add: eq unat_word_ariths)
  have b: "unat cd < 2 ^ 64"
    by (rule order_less_le_trans [OF unsigned_less]) simp
  show False
  proof (cases "unat cd + 1 < 2 ^ 64")
    case True
    then have "(unat cd + 1) mod 2 ^ 64 = unat cd + 1" by (rule mod_less)
    with u le show False by simp
  next
    case False
    with b have "unat cd + 1 = 2 ^ 64" by simp
    then have "(unat cd + 1) mod 2 ^ 64 = 0" by (simp only: mod_self)
    with u have "unat cf = 0" by simp
    then have "cf = 0" by (simp add: unat_eq_0)
    with assms(1) show False by simp
  qed
qed

lemma replay_rejected_counter_advanced:
  assumes "aead_contract (aead d)" "nonce_binding (aead d)" "length (nonce d) = 12"
    and "length (Payload f) \<le> 65516" "cf \<noteq> 0" "cf \<le> counter d"
  shows "fst (Decode d (wire (aead d) cf f)) = Inl (Error ''decryption failed'')"
proof -
  let ?n = "le_put_uint64 cf @ replicate 4 0"
  let ?n' = "le_put_uint64 (counter d + 1) @ drop 8 (nonce d)"
  let ?ct = "Seal (aead d) ?n (Type f # Payload f)"
  have l: "length ?ct = length (Payload f) + 17"
    using assms(1) by (simp add: aead_contract_def)
  have w: "wire (aead d) cf f = be_put_uint16 (of_nat (length ?ct)) @ ?ct"
    by (simp add: wire_def l)
  have "cf \<noteq> counter d + 1" using assms(5,6) by (rule word64_advanced_neq)
  then have "le_put_uint64 cf \<noteq> le_put_uint64 (counter d + 1)"
    using le_put_uint64_inj by blast
  then have "?n \<noteq> ?n'" by auto
  moreover have "length ?n = 12" "length ?n' = 12" using assms(3) by simp_all
  ultimately have o: "Open (aead d) ?n' ?ct = None"
    using assms(2) unfolding nonce_binding_def by blast
  have "fst (Decode d (be_put_uint16 (of_nat (length ?ct)) @ ?ct))
          = Inl (Error ''decryption failed'')"
    using assms(3,4) by (subst Decode_framed) (simp_all add: l o Let_def)
  then show ?thesis by (simp only: w)
qed



lemma session0_codec_at: "session0 = codec_at (tagAEAD key0) 0"
  by (simp add: session0_def codec_at_def le_put_uint64_0 replicate_add [symmetric])

subsection \<open>Payloads beyond the 16-bit length prefix\<close>

text \<open>
  A frame whose ciphertext is 65536 bytes or longer carries a length prefix that is the
  ciphertext's length modulo 2^16. \<open>Decode\<close> then panics on the slice (prefix 65534 or
  65535), or hands the cipher a strict prefix of the ciphertext; when the cipher opens
  that, the frame returned has a payload of (length modulo 2^16) - 17 bytes.
\<close>

lemma Decode_oversize:
  assumes big: "65536 \<le> length ct"
    and op: "\<forall>n c p. Open (aead d) n c = Some p \<longrightarrow> length c = length p + 16"
    and res: "fst (Decode d (be_put_uint16 (of_nat (length ct)) @ ct)) = Inr g"
  shows "length (Payload g) + 17 = length ct mod 65536"
proof -
  let ?data = "be_put_uint16 (of_nat (length ct)) @ ct"
  define s where "s = unat (2 + of_nat (length ct) :: 16 word)"
  let ?n = "le_put_uint64 (counter d + 1) @ drop 8 (nonce d)"
  have h: "be_uint16 (slice 0 2 ?data) = of_nat (length ct)"
    by (simp add: slice_def be_uint16_put)
  have s: "s = (2 + length ct mod 65536) mod 65536"
    by (simp add: s_def unat_word_ariths unat_of_nat)
  have s_lt: "s < 65536" by (simp add: s)
  have l: "2 \<le> length ?data" "\<not> length ?data < s" using big s_lt by simp_all
  have s2: "2 \<le> s"
  proof (rule ccontr)
    assume "\<not> 2 \<le> s"
    then have "fst (Decode d ?data) = Inl (Panic ''slice bounds out of range'')"
      using l by (simp add: Decode_def h s_def [symmetric] Let_def)
    with res show False by simp
  qed
  have n8: "8 \<le> length (nonce d)"
  proof (rule ccontr)
    assume "\<not> 8 \<le> length (nonce d)"
    then have "fst (Decode d ?data) = Inl (Panic ''index out of range'')"
      using l s2 by (simp add: Decode_def h s_def [symmetric] Let_def)
    with res show False by simp
  qed
  have ct': "slice 2 s ?data = take (s - 2) ct" by (simp add: slice_def)
  have dec: "Decode d ?data =
     (case Open (aead d) ?n (take (s - 2) ct) of
        None \<Rightarrow> (Inl (Error ''decryption failed''), d\<lparr>nonce := ?n, counter := counter d + 1\<rparr>)
      | Some p \<Rightarrow>
          if length p < 1
          then (Inl (Error ''invalid plaintext''), d\<lparr>nonce := ?n, counter := counter d + 1\<rparr>)
          else (Inr \<lparr>Type = p ! 0, Payload = (if 0 < length p - 1 then drop 1 p else [])\<rparr>,
                d\<lparr>nonce := ?n, counter := counter d + 1\<rparr>))"
    using l s2 n8
    by (simp add: Decode_def h s_def [symmetric] ct' Let_def split: option.splits)
  obtain p where p: "Open (aead d) ?n (take (s - 2) ct) = Some p"
    using res by (cases "Open (aead d) ?n (take (s - 2) ct)") (simp_all add: dec)
  have p1: "1 \<le> length p"
  proof (rule ccontr)
    assume "\<not> 1 \<le> length p"
    then have "p = []" by (cases p) simp_all
    with p have "Open (aead d) ?n (take (s - 2) ct) = Some []" by simp
    then have "fst (Decode d ?data) = Inl (Error ''invalid plaintext'')"
      by (simp add: dec)
    with res show False by simp
  qed
  have ne: "p \<noteq> []" using p1 by auto
  have "g = \<lparr>Type = p ! 0, Payload = (if 0 < length p - 1 then drop 1 p else [])\<rparr>"
    using res ne by (simp add: dec p)
  then have gl: "length (Payload g) = length p - 1" by simp
  have "length (take (s - 2) ct) = length p + 16" using op p by blast
  moreover have "length (take (s - 2) ct) = s - 2" using big s_lt by simp
  ultimately have sp: "s = length p + 18" using s2 by simp
  define r where "r = length ct mod 65536"
  have r: "r < 65536" by (simp add: r_def)
  have sr: "s = (2 + r) mod 65536" by (simp add: s r_def)
  have "r < 65534"
  proof (rule ccontr)
    assume "\<not> r < 65534"
    then have ge: "65536 \<le> 2 + r" by simp
    have "(2 + r) mod 65536 = (2 + r - 65536) mod 65536"
      using ge by (rule le_mod_geq)
    also have "\<dots> = 2 + r - 65536"
      using r by (intro mod_less) simp
    finally have "s = 2 + r - 65536" by (simp only: sr)
    with r s2 show False by simp
  qed
  then have "(2 + r) mod 65536 = 2 + r" by (intro mod_less) simp
  then have "s = 2 + r" by (simp only: sr)
  with sp have "length p + 16 = r" by simp
  with gl p1 have "length (Payload g) + 17 = r" by simp
  then show ?thesis by (simp only: r_def)
qed

text \<open>
  C10. \<open>Encode\<close> puts no bound on the payload and returns no error for an oversize
  one; the two-byte length prefix is the ciphertext length modulo 2^16. So for every
  payload whose length plus 17 exceeds 65535, the emitted length field differs from the
  ciphertext length, and no decoder, whatever its key and counter, decodes the emitted
  bytes to the frame: \<open>Decode\<close> returns an error, or a frame with a shorter payload
  (if its cipher accepts the truncated ciphertext). The ciphers are taken to add, and to
  remove, a 16-byte tag.
\<close>

theorem C10_oversize_payload:
  assumes "8 \<le> length (nonce e)"
    and "\<forall>n p. length (Seal (aead e) n p) = length p + 16"
    and "65535 < length (Payload f) + 17"
  shows "\<exists>out e'. Encode e f = (Inr out, e') \<and>
           length (drop 2 out) = length (Payload f) + 17 \<and>
           unat (be_uint16 (slice 0 2 out)) = (length (Payload f) + 17) mod 65536 \<and>
           unat (be_uint16 (slice 0 2 out)) \<noteq> length (drop 2 out) \<and>
           (\<forall>d. (\<forall>n c p. Open (aead d) n c = Some p \<longrightarrow> length c = length p + 16) \<longrightarrow>
              fst (Decode d out) \<noteq> Inr f \<and>
              (\<forall>g. fst (Decode d out) = Inr g \<longrightarrow> length (Payload g) < length (Payload f)))"
proof -
  let ?n = "le_put_uint64 (counter e + 1) @ drop 8 (nonce e)"
  let ?ct = "Seal (aead e) ?n (Type f # Payload f)"
  let ?out = "be_put_uint16 (of_nat (length ?ct)) @ ?ct"
  have l: "length ?ct = length (Payload f) + 17" using assms(2) by simp
  have big: "65536 \<le> length ?ct" using assms(3) l by simp
  have enc: "Encode e f = (Inr ?out, e\<lparr>nonce := ?n, counter := counter e + 1\<rparr>)"
    using assms(1) by (rule Encode_no_error)
  have h: "be_uint16 (slice 0 2 ?out) = of_nat (length ?ct)"
    by (simp add: slice_def be_uint16_put)
  have u: "unat (be_uint16 (slice 0 2 ?out)) = length ?ct mod 65536"
    by (simp add: h unat_of_nat)
  have lt: "length ?ct mod 65536 < length ?ct"
  proof -
    have "length ?ct mod 65536 < 65536" by simp
    with big show ?thesis by linarith
  qed
  have shorter: "length (Payload g) < length (Payload f)"
    if "\<forall>n c p. Open (aead d) n c = Some p \<longrightarrow> length c = length p + 16"
      and "fst (Decode d ?out) = Inr g" for d g
  proof -
    from Decode_oversize [OF big that]
    have "length (Payload g) + 17 = length ?ct mod 65536" .
    with lt l show ?thesis by linarith
  qed
  have "length (drop 2 ?out) = length (Payload f) + 17" by (simp add: l)
  moreover have "unat (be_uint16 (slice 0 2 ?out)) = (length (Payload f) + 17) mod 65536"
    using u l by simp
  moreover have "unat (be_uint16 (slice 0 2 ?out)) \<noteq> length (drop 2 ?out)"
    using u lt by simp
  moreover have "\<forall>d. (\<forall>n c p. Open (aead d) n c = Some p \<longrightarrow> length c = length p + 16) \<longrightarrow>
      fst (Decode d ?out) \<noteq> Inr f \<and>
      (\<forall>g. fst (Decode d ?out) = Inr g \<longrightarrow> length (Payload g) < length (Payload f))"
    using shorter by blast
  ultimately show ?thesis using enc by blast
qed

theorem C10_oversize_payload_witness:
  "\<exists>out e'. Encode session0 bigFrame = (Inr out, e') \<and>
      length (drop 2 out) = length (Payload bigFrame) + 17 \<and>
      unat (be_uint16 (slice 0 2 out)) = (length (Payload bigFrame) + 17) mod 65536 \<and>
      unat (be_uint16 (slice 0 2 out)) \<noteq> length (drop 2 out) \<and>
      (\<forall>d. (\<forall>n c p. Open (aead d) n c = Some p \<longrightarrow> length c = length p + 16) \<longrightarrow>
         fst (Decode d out) \<noteq> Inr bigFrame \<and>
         (\<forall>g. fst (Decode d out) = Inr g \<longrightarrow> length (Payload g) < length (Payload bigFrame)))"
proof -
  have 1: "8 \<le> length (nonce session0)" by (simp add: session0_def)
  have 2: "\<forall>n p. length (Seal (aead session0) n p) = length p + 16"
    by (simp add: session0_def tagAEAD_def)
  have 3: "65535 < length (Payload bigFrame) + 17" by (simp add: bigFrame_def)
  show ?thesis by (rule C10_oversize_payload [OF 1 2 3])
qed

section \<open>Properties of traffic morphing\<close>

lemma pickSize_mem: "pickSize r c ps = Some s \<Longrightarrow> s \<in> Size ` set ps"
  by (induction ps arbitrary: c) (auto simp: Let_def split: if_splits)

lemma GetPacketSize_mem:
  assumes "PacketSizes p \<noteq> []"
  shows "\<exists>s. GetPacketSize p g = (Inr s, g\<lparr>fpos := fpos g + 1\<rparr>) \<and> s \<in> Size ` set (PacketSizes p)"
proof (cases "pickSize (floats g (fpos g)) 0 (PacketSizes p)")
  case None
  then show ?thesis using assms by (simp add: GetPacketSize_def Float64_def)
next
  case (Some s)
  then show ?thesis using pickSize_mem [OF Some] by (simp add: GetPacketSize_def Float64_def)
qed

lemma GetDelay_ok:
  assumes "Delays p \<noteq> []"
  shows "\<exists>dl. GetDelay p g = (Inr dl, g\<lparr>fpos := fpos g + 1\<rparr>)"
  using assms by (simp add: GetDelay_def Float64_def split: option.splits)

lemma WriteFrame_codec_at:
  assumes "aead_contract a"
  shows "WriteFrame bufWrite (codec_at a c) w f = (None, codec_at a (c + 1), w @ [wire a (c + 1) f])"
  using assms
  by (simp add: WriteFrame_def EncodeToWriter_def bufWrite_def codec_at_def wire_def
      aead_contract_def Let_def ac_simps)

text \<open>One split, and the final padded frame.\<close>

lemma morph_split_step:
  assumes "aead_contract a" "Enabled cfg" "Profile cfg = Some p"
    and "GetPacketSize p g = (Inr ts, g1)" "0 \<le> ts" "ts < int (length pl)"
    and "GetDelay p g1 = (Inr dl, g2)"
  shows "WriteFrameWithMorphing bufWrite (codec_at a c) w g \<lparr>Type = t, Payload = pl\<rparr> (Some cfg)
       = WriteFrameWithMorphing bufWrite (codec_at a (c + 1))
           (w @ [wire a (c + 1) \<lparr>Type = t, Payload = take (nat ts) pl\<rparr>]) g2
           \<lparr>Type = t, Payload = drop (nat ts) pl\<rparr> (Some cfg)"
  using assms
  by (subst WriteFrameWithMorphing.simps) (simp add: WriteFrame_codec_at Let_def)

lemma morph_pad_step:
  assumes "aead_contract a" "Enabled cfg" "Profile cfg = Some p"
    and "GetPacketSize p g = (Inr ts, g1)" "int (length pl) \<le> ts"
    and "AddPadding pl ts g1 = (Inr padded, g2)"
    and "GetDelay p g2 = (Inr dl, g3)"
  shows "WriteFrameWithMorphing bufWrite (codec_at a c) w g \<lparr>Type = t, Payload = pl\<rparr> (Some cfg)
       = Some (None, codec_at a (c + 1), w @ [wire a (c + 1) \<lparr>Type = t, Payload = padded\<rparr>], g3)"
  using assms
  by (subst WriteFrameWithMorphing.simps) (simp add: WriteFrame_codec_at Let_def)

lemma AddPadding_fits:
  assumes "int (length pl) \<le> ts"
  shows "\<exists>pad g'. AddPadding pl ts g = (Inr (pl @ pad), g') \<and> int (length (pl @ pad)) = ts"
proof (cases "ts = int (length pl)")
  case True
  then show ?thesis by (simp add: AddPadding_def)
next
  case False
  with assms have "int (length pl) < ts" by simp
  then show ?thesis by (simp add: AddPadding_def Read_def)
qed

lemma morph_run:
  assumes a: "aead_contract a" and cfg: "Enabled cfg" "Profile cfg = Some p"
    and ps: "PacketSizes p \<noteq> []" "\<forall>s\<in>set (PacketSizes p). 0 < Size s"
    and dl: "Delays p \<noteq> []"
  shows "\<exists>frames pad g'.
           WriteFrameWithMorphing bufWrite (codec_at a c) w g \<lparr>Type = t, Payload = pl\<rparr> (Some cfg)
             = Some (None, codec_at a (c + of_nat (length frames)), w @ wires a c frames, g') \<and>
           frames \<noteq> [] \<and>
           (\<forall>x\<in>set frames. Type x = t \<and> int (length (Payload x)) \<in> Size ` set (PacketSizes p)) \<and>
           concat (map Payload frames) = pl @ pad \<and>
           (\<exists>chunk. Payload (last frames) = chunk @ pad)"
proof (induction "length pl" arbitrary: pl c w g rule: less_induct)
  case less
  obtain ts g1 where ts: "GetPacketSize p g = (Inr ts, g1)" and mem: "ts \<in> Size ` set (PacketSizes p)"
    using GetPacketSize_mem [OF ps(1), of g] by blast
  have pos: "0 < ts" using mem ps(2) by auto
  show ?case
  proof (cases "ts < int (length pl)")
    case True
    let ?first = "\<lparr>Type = t, Payload = take (nat ts) pl\<rparr>"
    obtain d g2 where d: "GetDelay p g1 = (Inr d, g2)"
      using GetDelay_ok [OF dl, of g1] by blast
    have step: "WriteFrameWithMorphing bufWrite (codec_at a c) w g \<lparr>Type = t, Payload = pl\<rparr> (Some cfg)
       = WriteFrameWithMorphing bufWrite (codec_at a (c + 1)) (w @ [wire a (c + 1) ?first]) g2
           \<lparr>Type = t, Payload = drop (nat ts) pl\<rparr> (Some cfg)"
      using pos True by (intro morph_split_step [OF a cfg ts _ _ d]) simp_all
    have "length (drop (nat ts) pl) < length pl" using pos True by simp
    from less [OF this, of "c + 1" "w @ [wire a (c + 1) ?first]" g2]
    obtain frames pad g' where
      run: "WriteFrameWithMorphing bufWrite (codec_at a (c + 1)) (w @ [wire a (c + 1) ?first]) g2
              \<lparr>Type = t, Payload = drop (nat ts) pl\<rparr> (Some cfg)
            = Some (None, codec_at a (c + 1 + of_nat (length frames)),
                    (w @ [wire a (c + 1) ?first]) @ wires a (c + 1) frames, g')"
      and ne: "frames \<noteq> []"
      and fr: "\<forall>x\<in>set frames. Type x = t \<and> int (length (Payload x)) \<in> Size ` set (PacketSizes p)"
      and cc: "concat (map Payload frames) = drop (nat ts) pl @ pad"
      and tl: "\<exists>chunk. Payload (last frames) = chunk @ pad"
      by blast
    have len: "int (length (take (nat ts) pl)) = ts" using pos True by simp
    have 1: "WriteFrameWithMorphing bufWrite (codec_at a c) w g \<lparr>Type = t, Payload = pl\<rparr> (Some cfg)
       = Some (None, codec_at a (c + of_nat (length (?first # frames))),
               w @ wires a c (?first # frames), g')"
      by (simp only: step run) (simp add: ac_simps)
    have 2: "\<forall>x\<in>set (?first # frames).
               Type x = t \<and> int (length (Payload x)) \<in> Size ` set (PacketSizes p)"
      using fr mem len by simp
    have 3: "concat (map Payload (?first # frames)) = pl @ pad"
      by (simp add: cc append_assoc [symmetric] del: append_assoc)
    have 4: "\<exists>chunk. Payload (last (?first # frames)) = chunk @ pad"
      using tl ne by simp
    have 5: "?first # frames \<noteq> []" by simp
    show ?thesis using 1 2 3 4 5 by blast
  next
    case False
    then have le: "int (length pl) \<le> ts" by simp
    obtain pad g2 where pd: "AddPadding pl ts g1 = (Inr (pl @ pad), g2)"
      and pl: "int (length (pl @ pad)) = ts"
      using AddPadding_fits [OF le, of g1] by blast
    obtain d g3 where d: "GetDelay p g2 = (Inr d, g3)"
      using GetDelay_ok [OF dl, of g2] by blast
    let ?last = "\<lparr>Type = t, Payload = pl @ pad\<rparr>"
    have 1: "WriteFrameWithMorphing bufWrite (codec_at a c) w g \<lparr>Type = t, Payload = pl\<rparr> (Some cfg)
       = Some (None, codec_at a (c + of_nat (length [?last])), w @ wires a c [?last], g3)"
      using morph_pad_step [OF a cfg ts le pd d] by simp
    have 2: "\<forall>x\<in>set [?last]. Type x = t \<and> int (length (Payload x)) \<in> Size ` set (PacketSizes p)"
      using mem pl by simp
    have 3: "concat (map Payload [?last]) = pl @ pad" by simp
    have 4: "\<exists>chunk. Payload (last [?last]) = chunk @ pad" by simp
    have 5: "[?last] \<noteq> []" by simp
    show ?thesis using 1 2 3 4 5 by blast
  qed
qed

lemma morph_disabled:
  assumes "aead_contract a" "config = None \<or> (\<exists>c. config = Some c \<and> (\<not> Enabled c \<or> Profile c = None))"
  shows "WriteFrameWithMorphing bufWrite (codec_at a c) w g f config
           = Some (None, codec_at a (c + 1), w @ [wire a (c + 1) f], g)"
  using assms
  by (subst WriteFrameWithMorphing.simps) (auto simp: WriteFrame_codec_at)

text \<open>
  C2, as the code has it. With morphing enabled under a profile that has at least one
  size and one delay, every size positive and at most 16384, and both codecs freshly
  constructed under one 32-byte key, \<open>WriteFrameWithMorphing\<close> returns without
  error; the frames it emitted, as the peer's decoder reads them, all carry the original
  type, each has one of the profile's sizes as its payload length, and the concatenation
  of their payloads is the original payload followed by the random padding, which is
  the tail of the last frame. The original payload is a prefix of what is delivered;
  nothing marks where it ends. Without morphing exactly the original frame is emitted
  (and read back, when its payload is at most 16384 bytes).
\<close>

theorem C2_morphing_payload_then_padding:
  assumes "cipher_contract new" "length k = 32"
    and "Enabled cfg" "Profile cfg = Some p"
    and "PacketSizes p \<noteq> []" "Delays p \<noteq> []"
    and "\<forall>s\<in>set (PacketSizes p). 0 < Size s \<and> Size s \<le> 16384"
  shows "\<exists>e d e' w g' frames pad.
           NewFrameEncoder new k = Inr e \<and> NewFrameDecoder new k = Inr d \<and>
           WriteFrameWithMorphing bufWrite e [] g frame (Some cfg) = Some (None, e', w, g') \<and>
           fst (DecodeAll d w) = map Inr frames \<and> frames \<noteq> [] \<and>
           (\<forall>x\<in>set frames. Type x = Type frame \<and>
              int (length (Payload x)) \<in> Size ` set (PacketSizes p)) \<and>
           concat (map Payload frames) = Payload frame @ pad \<and>
           (\<exists>chunk. Payload (last frames) = chunk @ pad) \<and>
           (length (Payload frame) \<le> 16384 \<longrightarrow>
              (\<exists>e1 w1. WriteFrameWithMorphing bufWrite e [] g frame None = Some (None, e1, w1, g) \<and>
                 fst (DecodeAll d w1) = [Inr frame]))"
proof -
  from assms(1,2) obtain a where a: "new k = Inr a" "aead_contract a"
    by (auto simp: cipher_contract_def)
  have pos: "\<forall>s\<in>set (PacketSizes p). 0 < Size s" using assms(7) by blast
  have fr: "frame = \<lparr>Type = Type frame, Payload = Payload frame\<rparr>" by simp
  from morph_run [OF a(2) assms(3,4,5) pos assms(6), of 0 "[]" g "Type frame" "Payload frame"]
  obtain frames pad g' where
    run: "WriteFrameWithMorphing bufWrite (codec_at a 0) [] g frame (Some cfg)
            = Some (None, codec_at a (of_nat (length frames)), wires a 0 frames, g')"
    and ne: "frames \<noteq> []"
    and ty: "\<forall>x\<in>set frames. Type x = Type frame \<and>
               int (length (Payload x)) \<in> Size ` set (PacketSizes p)"
    and cc: "concat (map Payload frames) = Payload frame @ pad"
    and tl: "\<exists>chunk. Payload (last frames) = chunk @ pad"
    using fr by auto
  have sz: "\<forall>x\<in>set frames. length (Payload x) \<le> 65516"
  proof
    fix x assume "x \<in> set frames"
    with ty have "int (length (Payload x)) \<in> Size ` set (PacketSizes p)" by blast
    with assms(7) have "int (length (Payload x)) \<le> 16384" by auto
    then show "length (Payload x) \<le> 65516" by simp
  qed
  have dec: "fst (DecodeAll (codec_at a 0) (wires a 0 frames)) = map Inr frames"
    using DecodeAll_codec_at [OF a(2) sz, of 0] by simp
  have plain: "\<exists>e1 w1. WriteFrameWithMorphing bufWrite (codec_at a 0) [] g frame None
                    = Some (None, e1, w1, g) \<and> fst (DecodeAll (codec_at a 0) w1) = [Inr frame]"
    if "length (Payload frame) \<le> 16384"
  proof -
    have "\<forall>x\<in>set [frame]. length (Payload x) \<le> 65516" using that by simp
    from DecodeAll_codec_at [OF a(2) this, of 0]
    have "fst (DecodeAll (codec_at a 0) [wire a (0 + 1) frame]) = [Inr frame]" by simp
    then show ?thesis using morph_disabled [OF a(2), of None 0 "[]" g frame] by simp
  qed
  show ?thesis
    using NewFrameEncoder_codec_at [of new k a] a run dec ne ty cc tl plain by blast
qed

lemma zoomConfig_simps:
  "Enabled zoomConfig" "Profile zoomConfig = Some ZoomProfile"
  by (simp_all add: zoomConfig_def NewMorphingConfig_def GetProfileByName_def)

theorem C2_morphing_payload_then_padding_witness:
  "\<exists>e d e' w g' frames pad.
      NewFrameEncoder tagNew key0 = Inr e \<and> NewFrameDecoder tagNew key0 = Inr d \<and>
      WriteFrameWithMorphing bufWrite e [] rngHalf dataFrame1500 (Some zoomConfig)
        = Some (None, e', w, g') \<and>
      fst (DecodeAll d w) = map Inr frames \<and> frames \<noteq> [] \<and>
      (\<forall>x\<in>set frames. Type x = Type dataFrame1500 \<and>
         int (length (Payload x)) \<in> Size ` set (PacketSizes ZoomProfile)) \<and>
      concat (map Payload frames) = Payload dataFrame1500 @ pad \<and>
      (\<exists>chunk. Payload (last frames) = chunk @ pad) \<and>
      (length (Payload dataFrame1500) \<le> 16384 \<longrightarrow>
         (\<exists>e1 w1. WriteFrameWithMorphing bufWrite e [] rngHalf dataFrame1500 None
                     = Some (None, e1, w1, rngHalf) \<and>
            fst (DecodeAll d w1) = [Inr dataFrame1500]))"
proof -
  have 1: "length key0 = 32" by (simp add: key0_def)
  have 2: "PacketSizes ZoomProfile \<noteq> []" "Delays ZoomProfile \<noteq> []"
    by (simp_all add: ZoomProfile_def)
  have 3: "\<forall>s\<in>set (PacketSizes ZoomProfile). 0 < Size s \<and> Size s \<le> 16384"
    by (simp add: ZoomProfile_def)
  show ?thesis
    by (rule C2_morphing_payload_then_padding [OF tagNew_contract 1 zoomConfig_simps 2 3])
qed

text \<open>
  The claim as written fails in its own seed scenario. Under the zoom profile, with
  every draw 0.5 (size 600), the 1500-byte DATA frame goes out as frames of 600, 600 and
  600 bytes: the last carries the remaining 300 bytes and 300 bytes of padding. The
  payloads concatenate to 1800 bytes, not to the original 1500; without morphing the one
  frame emitted carries the original 1500. The cipher plays no part in this: the frames
  are those any cipher meeting the contract carries (\<open>morph_run\<close>).
\<close>

lemma zoom_draw_half:
  "GetPacketSize ZoomProfile (rngHalf\<lparr>fpos := i, npos := n\<rparr>)
     = (Inr 600, rngHalf\<lparr>fpos := i + 1, npos := n\<rparr>)"
  "GetDelay ZoomProfile (rngHalf\<lparr>fpos := i, npos := n\<rparr>)
     = (Inr 40000000, rngHalf\<lparr>fpos := i + 1, npos := n\<rparr>)"
  by (simp_all add: GetPacketSize_def GetDelay_def Float64_def ZoomProfile_def rngHalf_def)

theorem C2_morphing_counterexample:
  "WriteFrameWithMorphing bufWrite session0 [] rngHalf dataFrame1500 (Some zoomConfig)
     = Some (None, codec_at (tagAEAD key0) 3, fst (EncodeAll session0 morphedFrames),
             rngHalf\<lparr>fpos := 6, npos := 300\<rparr>) \<and>
   fst (DecodeAll session0 (fst (EncodeAll session0 morphedFrames))) = map Inr morphedFrames \<and>
   concat (map Payload morphedFrames) = Payload dataFrame1500 @ replicate 300 0xEE \<and>
   length (concat (map Payload morphedFrames)) = 1800 \<and>
   length (Payload dataFrame1500) = 1500 \<and>
   concat (map Payload morphedFrames) \<noteq> Payload dataFrame1500 \<and>
   WriteFrameWithMorphing bufWrite session0 [] rngHalf dataFrame1500 None
     = Some (None, codec_at (tagAEAD key0) 1, fst (EncodeAll session0 [dataFrame1500]), rngHalf) \<and>
   fst (DecodeAll session0 (fst (EncodeAll session0 [dataFrame1500]))) = [Inr dataFrame1500]"
proof -
  let ?a = "tagAEAD key0"
  let ?A = "0x41 :: byte"
  let ?f1 = "\<lparr>Type = 0x01, Payload = replicate 600 ?A\<rparr>"
  let ?f3 = "\<lparr>Type = 0x01, Payload = replicate 300 ?A @ replicate 300 0xEE\<rparr>"
  note a = tagAEAD_contract [of key0]
  have g0: "rngHalf = rngHalf\<lparr>fpos := 0, npos := 0\<rparr>" by (simp add: rngHalf_def)
  have pad: "AddPadding (replicate 300 ?A) 600 (rngHalf\<lparr>fpos := 5, npos := 0\<rparr>)
               = (Inr (replicate 300 ?A @ replicate 300 0xEE), rngHalf\<lparr>fpos := 5, npos := 300\<rparr>)"
    by (simp add: AddPadding_def Read_def rngHalf_def map_replicate_const)
  have p0: "GetPacketSize ZoomProfile (rngHalf\<lparr>fpos := 0, npos := 0\<rparr>)
              = (Inr 600, rngHalf\<lparr>fpos := 1, npos := 0\<rparr>)"
    using zoom_draw_half(1) [where i = 0 and n = 0] by simp
  have d1: "GetDelay ZoomProfile (rngHalf\<lparr>fpos := 1, npos := 0\<rparr>)
              = (Inr 40000000, rngHalf\<lparr>fpos := 2, npos := 0\<rparr>)"
    using zoom_draw_half(2) [where i = 1 and n = 0] by simp
  have p2: "GetPacketSize ZoomProfile (rngHalf\<lparr>fpos := 2, npos := 0\<rparr>)
              = (Inr 600, rngHalf\<lparr>fpos := 3, npos := 0\<rparr>)"
    using zoom_draw_half(1) [where i = 2 and n = 0] by simp
  have d3: "GetDelay ZoomProfile (rngHalf\<lparr>fpos := 3, npos := 0\<rparr>)
              = (Inr 40000000, rngHalf\<lparr>fpos := 4, npos := 0\<rparr>)"
    using zoom_draw_half(2) [where i = 3 and n = 0] by simp
  have p4: "GetPacketSize ZoomProfile (rngHalf\<lparr>fpos := 4, npos := 0\<rparr>)
              = (Inr 600, rngHalf\<lparr>fpos := 5, npos := 0\<rparr>)"
    using zoom_draw_half(1) [where i = 4 and n = 0] by simp
  have d5: "GetDelay ZoomProfile (rngHalf\<lparr>fpos := 5, npos := 300\<rparr>)
              = (Inr 40000000, rngHalf\<lparr>fpos := 6, npos := 300\<rparr>)"
    using zoom_draw_half(2) [where i = 5 and n = 300] by simp
  have s3: "WriteFrameWithMorphing bufWrite (codec_at ?a 2) [wire ?a 1 ?f1, wire ?a 2 ?f1]
              (rngHalf\<lparr>fpos := 4, npos := 0\<rparr>) \<lparr>Type = 0x01, Payload = replicate 300 ?A\<rparr>
              (Some zoomConfig)
            = Some (None, codec_at ?a 3, [wire ?a 1 ?f1, wire ?a 2 ?f1, wire ?a 3 ?f3],
                    rngHalf\<lparr>fpos := 6, npos := 300\<rparr>)"
    using morph_pad_step [OF a zoomConfig_simps p4 _ pad d5,
        of 2 "[wire ?a 1 ?f1, wire ?a 2 ?f1]" "0x01"]
    by simp
  have s2: "WriteFrameWithMorphing bufWrite (codec_at ?a 1) [wire ?a 1 ?f1]
              (rngHalf\<lparr>fpos := 2, npos := 0\<rparr>) \<lparr>Type = 0x01, Payload = replicate 900 ?A\<rparr>
              (Some zoomConfig)
            = Some (None, codec_at ?a 3, [wire ?a 1 ?f1, wire ?a 2 ?f1, wire ?a 3 ?f3],
                    rngHalf\<lparr>fpos := 6, npos := 300\<rparr>)"
    using morph_split_step [OF a zoomConfig_simps p2 _ _ d3,
        of "replicate 900 ?A" 1 "[wire ?a 1 ?f1]" "0x01"] s3
    by simp
  have s1: "WriteFrameWithMorphing bufWrite (codec_at ?a 0) []
              (rngHalf\<lparr>fpos := 0, npos := 0\<rparr>) \<lparr>Type = 0x01, Payload = replicate 1500 ?A\<rparr>
              (Some zoomConfig)
            = Some (None, codec_at ?a 3, [wire ?a 1 ?f1, wire ?a 2 ?f1, wire ?a 3 ?f3],
                    rngHalf\<lparr>fpos := 6, npos := 300\<rparr>)"
    using morph_split_step [OF a zoomConfig_simps p0 _ _ d1,
        of "replicate 1500 ?A" 0 "[]" "0x01"] s2
    by simp
  have enc: "fst (EncodeAll (codec_at ?a 0) morphedFrames)
               = [wire ?a 1 ?f1, wire ?a 2 ?f1, wire ?a 3 ?f3]"
    using EncodeAll_codec_at [OF a, of 0 morphedFrames] by (simp add: morphedFrames_def)
  have c1: "WriteFrameWithMorphing bufWrite (codec_at ?a 0) [] rngHalf dataFrame1500
              (Some zoomConfig)
            = Some (None, codec_at ?a 3, fst (EncodeAll (codec_at ?a 0) morphedFrames),
                    rngHalf\<lparr>fpos := 6, npos := 300\<rparr>)"
    unfolding enc dataFrame1500_def by (rule s1 [folded g0])
  have sz: "\<forall>f\<in>set morphedFrames. length (Payload f) \<le> 65516"
    by (simp add: morphedFrames_def)
  have c2: "fst (DecodeAll (codec_at ?a 0) (fst (EncodeAll (codec_at ?a 0) morphedFrames)))
              = map Inr morphedFrames"
    using DecodeAll_codec_at [OF a sz, of 0] EncodeAll_codec_at [OF a, of 0 morphedFrames]
    by simp
  have enc1: "fst (EncodeAll (codec_at ?a 0) [dataFrame1500]) = [wire ?a 1 dataFrame1500]"
    using EncodeAll_codec_at [OF a, of 0 "[dataFrame1500]"] by simp
  have sz1: "\<forall>f\<in>set [dataFrame1500]. length (Payload f) \<le> 65516"
    by (simp add: dataFrame1500_def)
  have c8: "fst (DecodeAll (codec_at ?a 0) (fst (EncodeAll (codec_at ?a 0) [dataFrame1500])))
              = [Inr dataFrame1500]"
    using DecodeAll_codec_at [OF a sz1, of 0] by (simp only: enc1) simp
  have c7: "WriteFrameWithMorphing bufWrite (codec_at ?a 0) [] rngHalf dataFrame1500 None
     = Some (None, codec_at ?a 1, fst (EncodeAll (codec_at ?a 0) [dataFrame1500]), rngHalf)"
    using morph_disabled [OF a, of None 0 "[]" rngHalf dataFrame1500]
    by (simp only: enc1) simp
  have cc: "concat (map Payload morphedFrames) = Payload dataFrame1500 @ replicate 300 0xEE"
    by (simp add: morphedFrames_def dataFrame1500_def replicate_add [symmetric]
        append_assoc [symmetric] del: append_assoc)
  have l: "length (concat (map Payload morphedFrames)) = 1800"
    "length (Payload dataFrame1500) = 1500"
    by (simp_all add: morphedFrames_def dataFrame1500_def)
  have ne: "concat (map Payload morphedFrames) \<noteq> Payload dataFrame1500"
  proof
    assume "concat (map Payload morphedFrames) = Payload dataFrame1500"
    then have "length (concat (map Payload morphedFrames)) = length (Payload dataFrame1500)"
      by (rule arg_cong)
    then show False by (simp add: l)
  qed
  show ?thesis
    unfolding session0_codec_at using c1 c2 cc l ne c7 c8 by blast
qed

end
